theory Spec2Isabelle
  imports Complex_Main
begin

section \<open>Data model (types.ts)\<close>

text \<open>
  The simulation computes on JavaScript numbers. They are modelled as mathematical
  numbers: continuous quantities (positions, angles, timers, alert levels, speeds) are
  \<^typ>\<open>real\<close>, counters that the program only ever initialises from integer constants
  and changes by integer steps (ammo, health, pickup amounts) are \<^typ>\<open>int\<close>, array
  indices and identifiers are \<^typ>\<open>nat\<close>. Rounding, NaN and infinities of IEEE doubles
  are outside this model; \<open>Math.PI\<close> is \<^term>\<open>pi\<close>.

  A \<open>Vec2\<close> \<open>{x, y}\<close> is a pair: \<^term>\<open>fst\<close> is \<open>x\<close>, \<^term>\<open>snd\<close> is \<open>y\<close>.
  Fields of the entity interfaces carry a prefix naming the interface (\<open>p_\<close> Player,
  \<open>e_\<close> Enemy, \<open>b_\<close> Bullet, \<open>n_\<close> NoiseMarker, \<open>a_\<close> AmmoPickup, \<open>i_\<close> InputState);
  the fields of \<open>GameState\<close> and \<open>GameConfig\<close> keep their names.
\<close>

type_synonym vec2 = "real \<times> real"

datatype TileType = FLOOR | WALL | COVER | EXIT | SPAWN | AMMO

type_synonym tilegrid = "TileType list list"

datatype EnemyState = PATROL | INVESTIGATE | CHASE | RETURN

record Player =
  p_pos :: vec2
  p_angle :: real
  p_isSprinting :: bool
  p_isSneaking :: bool
  p_speed :: real
  p_noiseLevel :: real
  p_ammo :: int
  p_maxAmmo :: int
  p_health :: int
  p_maxHealth :: int
  p_shootCooldown :: real

record Enemy =
  e_id :: nat
  e_pos :: vec2
  e_angle :: real
  e_state :: EnemyState
  e_waypoints :: "vec2 list"
  e_currentWaypointIndex :: nat
  e_investigateTarget :: "vec2 option"
  e_lastKnownPlayerPos :: "vec2 option"
  e_alertLevel :: real
  e_stateTimer :: real
  e_speed :: real
  e_ammo :: int
  e_maxAmmo :: int
  e_health :: int
  e_shootCooldown :: real
  e_isDead :: bool

record GameConfig =
  gridWidth :: nat
  gridHeight :: nat
  tileSize :: real
  visionAngle :: real
  visionRange :: real
  hearingRadius :: real
  enemyCountMin :: nat
  enemyCountMax :: nat
  playerWalkSpeed :: real
  playerSprintSpeed :: real
  playerSneakSpeed :: real
  enemyPatrolSpeed :: real
  enemyChaseSpeed :: real
  chaseDuration :: real
  seed :: nat

record Bullet =
  b_id :: nat
  b_pos :: vec2
  b_velocity :: vec2
  b_isPlayerBullet :: bool
  b_lifetime :: real

record AmmoPickup =
  a_pos :: vec2
  a_amount :: int
  a_collected :: bool

record NoiseMarker =
  n_pos :: vec2
  n_radius :: real
  n_lifetime :: real
  n_maxLifetime :: real

record GameState =
  player :: Player
  enemies :: "Enemy list"
  grid :: tilegrid
  config :: GameConfig
  isGameOver :: bool
  isWin :: bool
  isPaused :: bool
  debugMode :: bool
  detectionLevel :: real
  noiseMarkers :: "NoiseMarker list"
  bullets :: "Bullet list"
  ammoPickups :: "AmmoPickup list"
  nextBulletId :: nat
  exploredTiles :: "bool list list"

record InputState =
  i_up :: bool
  i_down :: bool
  i_left :: bool
  i_right :: bool
  i_sprint :: bool
  i_sneak :: bool
  i_interact :: bool
  i_shoot :: bool
  i_mousePos :: vec2
  i_mouseDown :: bool

text \<open>
  A call that does not return a value: \<open>TypeError\<close> when a property of \<open>undefined\<close> is
  read, \<open>Diverges\<close> when a \<open>while (true)\<close> loop never reaches its \<open>break\<close>.
\<close>

datatype failure = TypeError | Diverges

section \<open>Geometry (utils.ts)\<close>

definition distance :: "vec2 \<Rightarrow> vec2 \<Rightarrow> real" where
  "distance a b = sqrt ((fst b - fst a)\<^sup>2 + (snd b - snd a)\<^sup>2)"

definition normalize :: "vec2 \<Rightarrow> vec2" where
  "normalize v =
     (let len = sqrt ((fst v)\<^sup>2 + (snd v)\<^sup>2)
      in if len = 0 then (0, 0) else (fst v / len, snd v / len))"

text \<open>\<open>Math.atan2(y, x)\<close> on real numbers: the angle of the point \<open>(x, y)\<close>, in \<open>(-\<pi>, \<pi>]\<close>,
  and \<open>0\<close> at the origin.\<close>

definition atan2 :: "real \<Rightarrow> real \<Rightarrow> real" where
  "atan2 y x =
     (if 0 < x then arctan (y / x)
      else if x < 0 then (if 0 \<le> y then arctan (y / x) + pi else arctan (y / x) - pi)
      else if 0 < y then pi / 2
      else if y < 0 then - (pi / 2)
      else 0)"

definition angleBetween :: "vec2 \<Rightarrow> vec2 \<Rightarrow> real" where
  "angleBetween a b = atan2 (snd b - snd a) (fst b - fst a)"

text \<open>\<open>normalizeAngle\<close> is two \<open>while\<close> statements in sequence:
  \<open>while (angle > Math.PI) angle -= 2\<pi>\<close>, then \<open>while (angle < -Math.PI) angle += 2\<pi>\<close>.\<close>

function normalizeAngle_down :: "real \<Rightarrow> real" where
  "normalizeAngle_down angle =
     (if angle > pi then normalizeAngle_down (angle - pi * 2) else angle)"
  by pat_completeness auto
termination
proof (relation "measure (\<lambda>angle. nat \<lceil>(angle - pi) / (2 * pi)\<rceil>)")
  show "wf (measure (\<lambda>angle. nat \<lceil>(angle - pi) / (2 * pi)\<rceil>))"
    by simp
next
  fix angle :: real
  assume gt: "pi < angle"
  have pos: "0 < (angle - pi) / (2 * pi)"
    using gt pi_gt_zero by simp
  have shift: "(angle - pi * 2 - pi) / (2 * pi) = (angle - pi) / (2 * pi) - 1"
    using pi_gt_zero by (simp add: field_simps)
  have "\<lceil>(angle - pi * 2 - pi) / (2 * pi)\<rceil> = \<lceil>(angle - pi) / (2 * pi)\<rceil> - 1"
    unfolding shift by simp
  moreover have "0 < \<lceil>(angle - pi) / (2 * pi)\<rceil>"
    using pos by simp
  ultimately show "(angle - pi * 2, angle) \<in> measure (\<lambda>angle. nat \<lceil>(angle - pi) / (2 * pi)\<rceil>)"
    by simp
qed

function normalizeAngle_up :: "real \<Rightarrow> real" where
  "normalizeAngle_up angle =
     (if angle < - pi then normalizeAngle_up (angle + pi * 2) else angle)"
  by pat_completeness auto
termination
proof (relation "measure (\<lambda>angle. nat \<lceil>(- pi - angle) / (2 * pi)\<rceil>)")
  show "wf (measure (\<lambda>angle. nat \<lceil>(- pi - angle) / (2 * pi)\<rceil>))"
    by simp
next
  fix angle :: real
  assume lt: "angle < - pi"
  have pos: "0 < (- pi - angle) / (2 * pi)"
    using lt pi_gt_zero by simp
  have shift: "(- pi - (angle + pi * 2)) / (2 * pi) = (- pi - angle) / (2 * pi) - 1"
    using pi_gt_zero by (simp add: field_simps)
  have "\<lceil>(- pi - (angle + pi * 2)) / (2 * pi)\<rceil> = \<lceil>(- pi - angle) / (2 * pi)\<rceil> - 1"
    unfolding shift by simp
  moreover have "0 < \<lceil>(- pi - angle) / (2 * pi)\<rceil>"
    using pos by simp
  ultimately show "(angle + pi * 2, angle) \<in> measure (\<lambda>angle. nat \<lceil>(- pi - angle) / (2 * pi)\<rceil>)"
    by simp
qed

declare normalizeAngle_down.simps [simp del]
declare normalizeAngle_up.simps [simp del]

definition normalizeAngle :: "real \<Rightarrow> real" where
  "normalizeAngle angle = normalizeAngle_up (normalizeAngle_down angle)"

definition angleDifference :: "real \<Rightarrow> real \<Rightarrow> real" where
  "angleDifference a b = normalizeAngle (b - a)"

definition degToRad :: "real \<Rightarrow> real" where
  "degToRad deg = (deg * pi) / 180"

text \<open>
  \<open>getLinePoints\<close> (Bresenham): the body of \<open>while (true)\<close>, with the variables
  \<open>err\<close>, \<open>x\<close>, \<open>y\<close> and the array \<open>points\<close> as arguments. The iteration has no bound
  of its own, so it is a partial function: \<open>None\<close> is a run that never breaks.
\<close>

partial_function (option) getLinePoints_loop ::
  "int \<Rightarrow> int \<Rightarrow> int \<Rightarrow> int \<Rightarrow> int \<Rightarrow> int \<Rightarrow> int \<Rightarrow> int \<Rightarrow> int \<Rightarrow> (int \<times> int) list
     \<Rightarrow> (int \<times> int) list option" where
  "getLinePoints_loop x1 y1 dx dy sx sy err x y points =
     (if x = x1 \<and> y = y1 then Some (points @ [(x, y)])
      else getLinePoints_loop x1 y1 dx dy sx sy
             ((if 2 * err > - dy then err - dy else err) + (if 2 * err < dx then dx else 0))
             (if 2 * err > - dy then x + sx else x)
             (if 2 * err < dx then y + sy else y)
             (points @ [(x, y)]))"

definition getLinePoints :: "int \<Rightarrow> int \<Rightarrow> int \<Rightarrow> int \<Rightarrow> (int \<times> int) list option" where
  "getLinePoints x0 y0 x1 y1 =
     (let dx = \<bar>x1 - x0\<bar>;
          dy = \<bar>y1 - y0\<bar>;
          sx = (if x0 < x1 then 1 else - 1);
          sy = (if y0 < y1 then 1 else - 1);
          err = dx - dy
      in getLinePoints_loop x1 y1 dx dy sx sy err x0 y0 [])"

section \<open>Collision (collision.ts)\<close>

text \<open>\<open>grid[ty][tx]\<close> for indices already known to be non-negative integers; \<open>None\<close> is
  JavaScript's \<open>undefined\<close> for a cell the (possibly ragged) array does not have.\<close>

definition tileAt :: "tilegrid \<Rightarrow> int \<Rightarrow> int \<Rightarrow> TileType option" where
  "tileAt g ty tx =
     (if 0 \<le> ty \<and> nat ty < length g \<and> 0 \<le> tx \<and> nat tx < length (g ! nat ty)
      then Some (g ! nat ty ! nat tx) else None)"

text \<open>The bounds test the three grid readers share; \<open>grid[0]\<close> is only read once
  \<open>tileY < grid.length\<close> has shown that the grid has a first row.\<close>

definition inBounds :: "tilegrid \<Rightarrow> int \<Rightarrow> int \<Rightarrow> bool" where
  "inBounds g ty tx =
     (ty \<ge> 0 \<and> ty < int (length g) \<and> tx \<ge> 0 \<and> tx < int (length (g ! 0)))"

definition isWalkable :: "tilegrid \<Rightarrow> real \<Rightarrow> real \<Rightarrow> bool" where
  "isWalkable g x y =
     (let tileX = \<lfloor>x\<rfloor>; tileY = \<lfloor>y\<rfloor>
      in if \<not> inBounds g tileY tileX then False
         else tileAt g tileY tileX \<noteq> Some WALL)"

definition canMoveTo :: "tilegrid \<Rightarrow> vec2 \<Rightarrow> vec2 \<Rightarrow> real \<Rightarrow> bool" where
  "canMoveTo g a b radius =
     (let offsets = [(- radius, - radius), (radius, - radius), (- radius, radius), (radius, radius)]
      in list_all (\<lambda>offset. isWalkable g (fst b + fst offset) (snd b + snd offset)) offsets)"

definition blocksSight :: "tilegrid \<Rightarrow> int \<times> int \<Rightarrow> bool" where
  "blocksSight g point =
     (inBounds g (snd point) (fst point) \<and>
      (tileAt g (snd point) (fst point) = Some WALL \<or> tileAt g (snd point) (fst point) = Some COVER))"

definition hasLineOfSight :: "tilegrid \<Rightarrow> vec2 \<Rightarrow> vec2 \<Rightarrow> failure + bool" where
  "hasLineOfSight g a b =
     (case getLinePoints \<lfloor>fst a\<rfloor> \<lfloor>snd a\<rfloor> \<lfloor>fst b\<rfloor> \<lfloor>snd b\<rfloor> of
        None \<Rightarrow> Inl Diverges
      | Some points \<Rightarrow>
          Inr (\<not> list_ex (\<lambda>i. blocksSight g (points ! i)) [1 ..< length points - 1]))"

definition resolveCollision :: "tilegrid \<Rightarrow> vec2 \<Rightarrow> vec2 \<Rightarrow> real \<Rightarrow> vec2" where
  "resolveCollision g a b radius =
     (if canMoveTo g a b radius then b
      else let horizontalOnly = (fst b, snd a) in
        if canMoveTo g a horizontalOnly radius then horizontalOnly
        else let verticalOnly = (fst a, snd b) in
          if canMoveTo g a verticalOnly radius then verticalOnly
          else a)"

section \<open>Enemy perception and state machine (enemyAI.ts)\<close>

record EnemyResult =
  detected :: bool
  alertLevel :: real
  shouldShoot :: bool

definition moveToward :: "Enemy \<Rightarrow> vec2 \<Rightarrow> tilegrid \<Rightarrow> real \<Rightarrow> Enemy" where
  "moveToward enemy target g deltaTime =
     (let direction = normalize (fst target - fst (e_pos enemy), snd target - snd (e_pos enemy));
          turned = (if fst direction \<noteq> 0 \<or> snd direction \<noteq> 0
                    then enemy\<lparr>e_angle := angleBetween (e_pos enemy) target\<rparr> else enemy);
          newPos = (fst (e_pos enemy) + fst direction * e_speed enemy * deltaTime,
                    snd (e_pos enemy) + snd direction * e_speed enemy * deltaTime)
      in turned\<lparr>e_pos := resolveCollision g (e_pos enemy) newPos 0.35\<rparr>)"

text \<open>\<open>patrolBehavior\<close>: \<open>enemy.waypoints[enemy.currentWaypointIndex]\<close> is \<open>undefined\<close>
  past the end of the array, and \<open>moveToward\<close> then reads \<open>target.x\<close>: a \<open>TypeError\<close>.\<close>

definition patrolBehavior :: "Enemy \<Rightarrow> tilegrid \<Rightarrow> real \<Rightarrow> failure + Enemy" where
  "patrolBehavior enemy g deltaTime =
     (if length (e_waypoints enemy) = 0 then Inr enemy
      else if e_currentWaypointIndex enemy \<ge> length (e_waypoints enemy) then Inl TypeError
      else
        let target = e_waypoints enemy ! e_currentWaypointIndex enemy;
            moved = moveToward enemy target g deltaTime
        in Inr (if distance (e_pos moved) target < 0.5
                then moved\<lparr>e_currentWaypointIndex :=
                        (e_currentWaypointIndex moved + 1) mod length (e_waypoints moved)\<rparr>
                else moved))"

definition investigateBehavior :: "Enemy \<Rightarrow> tilegrid \<Rightarrow> real \<Rightarrow> Enemy" where
  "investigateBehavior enemy g deltaTime =
     (case e_investigateTarget enemy of
        None \<Rightarrow> enemy
      | Some target \<Rightarrow>
          let moved = moveToward enemy target g deltaTime
          in if distance (e_pos moved) target < 0.5
             then moved\<lparr>e_angle := e_angle moved + deltaTime * 2\<rparr>
             else moved)"

definition chaseBehavior :: "Enemy \<Rightarrow> Player \<Rightarrow> tilegrid \<Rightarrow> real \<Rightarrow> Enemy" where
  "chaseBehavior enemy pl g deltaTime =
     (let target = (case e_lastKnownPlayerPos enemy of Some known \<Rightarrow> known | None \<Rightarrow> p_pos pl)
      in moveToward enemy target g deltaTime)"

definition returnBehavior :: "Enemy \<Rightarrow> tilegrid \<Rightarrow> real \<Rightarrow> Enemy \<times> bool" where
  "returnBehavior enemy g deltaTime =
     (if length (e_waypoints enemy) = 0 then (enemy, True)
      else
        let target = e_waypoints enemy ! 0;
            moved = moveToward enemy target g deltaTime
        in (moved, distance (e_pos moved) target < 0.5))"

text \<open>The vision test (lines 26 to 39 of \<open>updateEnemy\<close>). \<open>&&\<close> evaluates
  \<open>hasLineOfSight\<close> only when the range and the angle tests have passed.\<close>

definition inVisionCone :: "Enemy \<Rightarrow> Player \<Rightarrow> tilegrid \<Rightarrow> GameConfig \<Rightarrow> failure + bool" where
  "inVisionCone enemy pl g cfg =
     (let playerTilePos = (fst (p_pos pl), snd (p_pos pl));
          distToPlayer = distance (e_pos enemy) playerTilePos;
          angleToPlayer = angleBetween (e_pos enemy) playerTilePos;
          angleDiff = \<bar>angleDifference (e_angle enemy) angleToPlayer\<bar>;
          halfVisionAngle = degToRad (visionAngle cfg / 2);
          effectiveVisionRange =
            (if p_isSneaking pl then visionRange cfg * 0.6 else visionRange cfg)
      in if distToPlayer \<le> effectiveVisionRange \<and> angleDiff \<le> halfVisionAngle
         then hasLineOfSight g (e_pos enemy) playerTilePos
         else Inr False)"

text \<open>The hearing test (lines 41 to 48).\<close>

definition canHear :: "Enemy \<Rightarrow> Player \<Rightarrow> GameConfig \<Rightarrow> bool" where
  "canHear enemy pl cfg =
     (let distToPlayer = distance (e_pos enemy) (p_pos pl);
          hearingRange =
            (if p_isSprinting pl then hearingRadius cfg * 1.5
             else if p_isSneaking pl then hearingRadius cfg * 0.3
             else hearingRadius cfg)
      in distToPlayer \<le> hearingRange \<and> p_noiseLevel pl > 0)"

text \<open>The scan of the noise markers (lines 50 to 59). The accumulator is the pair
  \<open>(closestNoise, closestNoiseDist)\<close>; the distance \<open>None\<close> is the initial \<open>Infinity\<close>,
  above every distance.\<close>

fun closestNoise_loop ::
  "vec2 \<Rightarrow> real \<Rightarrow> NoiseMarker list \<Rightarrow> vec2 option \<times> real option \<Rightarrow> vec2 option \<times> real option" where
  "closestNoise_loop epos radius [] acc = acc"
| "closestNoise_loop epos radius (noise # rest) acc =
     (let noiseDist = distance epos (n_pos noise)
      in if noiseDist \<le> radius \<and> (case snd acc of None \<Rightarrow> True | Some d \<Rightarrow> noiseDist < d)
         then closestNoise_loop epos radius rest (Some (n_pos noise), Some noiseDist)
         else closestNoise_loop epos radius rest acc)"

definition closestNoise :: "Enemy \<Rightarrow> GameConfig \<Rightarrow> NoiseMarker list \<Rightarrow> vec2 option" where
  "closestNoise enemy cfg markers =
     fst (closestNoise_loop (e_pos enemy) (hearingRadius cfg) markers (None, None))"

text \<open>The alert update (lines 61 to 77), from the results of the three tests.\<close>

definition updateAlert :: "Enemy \<Rightarrow> Player \<Rightarrow> real \<Rightarrow> bool \<Rightarrow> bool \<Rightarrow> vec2 option \<Rightarrow> Enemy" where
  "updateAlert enemy pl deltaTime inCone heard noise =
     (let playerTilePos = (fst (p_pos pl), snd (p_pos pl));
          updated =
            (if inCone then
               enemy\<lparr>e_alertLevel :=
                        e_alertLevel enemy + (100 / (if p_isSneaking pl then 2 else 0.8)) * deltaTime,
                     e_lastKnownPlayerPos := Some playerTilePos\<rparr>
             else if heard \<or> noise \<noteq> None then
               enemy\<lparr>e_alertLevel := e_alertLevel enemy + 30 * deltaTime,
                     e_investigateTarget :=
                        (case noise of Some npos \<Rightarrow> Some npos | None \<Rightarrow> Some playerTilePos)\<rparr>
             else
               enemy\<lparr>e_alertLevel := max 0 (e_alertLevel enemy - 15 * deltaTime)\<rparr>)
      in updated\<lparr>e_alertLevel := min 100 (e_alertLevel updated)\<rparr>)"

text \<open>The \<open>switch (enemy.state)\<close> (lines 79 to 138); the second component of the result is
  \<open>shouldShoot\<close>.\<close>

definition stateMachine ::
  "Enemy \<Rightarrow> Player \<Rightarrow> tilegrid \<Rightarrow> GameConfig \<Rightarrow> real \<Rightarrow> bool \<Rightarrow> real \<Rightarrow> failure + (Enemy \<times> bool)" where
  "stateMachine enemy pl g cfg deltaTime inCone distToPlayer =
     (case e_state enemy of
        PATROL \<Rightarrow>
          if e_alertLevel enemy \<ge> 100 then
            Inr (enemy\<lparr>e_state := CHASE, e_stateTimer := chaseDuration cfg,
                       e_speed := enemyChaseSpeed cfg\<rparr>, False)
          else if e_alertLevel enemy \<ge> 40 then
            Inr (enemy\<lparr>e_state := INVESTIGATE, e_stateTimer := 3\<rparr>, False)
          else (case patrolBehavior enemy g deltaTime of
                  Inl f \<Rightarrow> Inl f
                | Inr moved \<Rightarrow> Inr (moved, False))
      | INVESTIGATE \<Rightarrow>
          let timed = enemy\<lparr>e_stateTimer := e_stateTimer enemy - deltaTime\<rparr>
          in if e_alertLevel timed \<ge> 100 then
               Inr (timed\<lparr>e_state := CHASE, e_stateTimer := chaseDuration cfg,
                          e_speed := enemyChaseSpeed cfg\<rparr>, False)
             else if e_stateTimer timed \<le> 0 \<or> e_alertLevel timed < 10 then
               Inr (timed\<lparr>e_state := RETURN, e_investigateTarget := None\<rparr>, False)
             else Inr (investigateBehavior timed g deltaTime, False)
      | CHASE \<Rightarrow>
          let timed = enemy\<lparr>e_stateTimer := e_stateTimer enemy - deltaTime\<rparr>;
              reset = (if inCone then timed\<lparr>e_stateTimer := chaseDuration cfg\<rparr> else timed);
              shoot = (inCone \<and> distToPlayer \<le> 8 \<and> e_ammo reset > 0 \<and> e_shootCooldown reset \<le> 0)
          in if e_stateTimer reset \<le> 0 then
               Inr (reset\<lparr>e_state := RETURN, e_speed := enemyPatrolSpeed cfg,
                          e_alertLevel := 30\<rparr>, shoot)
             else Inr (chaseBehavior reset pl g deltaTime, shoot)
      | RETURN \<Rightarrow>
          if e_alertLevel enemy \<ge> 60 then
            Inr (enemy\<lparr>e_state := INVESTIGATE, e_stateTimer := 3\<rparr>, False)
          else
            let (moved, returned) = returnBehavior enemy g deltaTime
            in Inr (if returned
                    then moved\<lparr>e_state := PATROL, e_speed := enemyPatrolSpeed cfg\<rparr>
                    else moved, False))"

text \<open>The first half of \<open>updateEnemy\<close> for a live enemy (lines 22 to 77): the shoot
  cooldown, the three tests and the alert update. The result is the enemy so far and
  \<open>inVisionCone\<close>.\<close>

definition alertPhase ::
  "Enemy \<Rightarrow> Player \<Rightarrow> tilegrid \<Rightarrow> GameConfig \<Rightarrow> real \<Rightarrow> NoiseMarker list
     \<Rightarrow> failure + (Enemy \<times> bool)" where
  "alertPhase enemy pl g cfg deltaTime markers =
     (let cooled = enemy\<lparr>e_shootCooldown := max 0 (e_shootCooldown enemy - deltaTime)\<rparr>
      in case inVisionCone cooled pl g cfg of
           Inl f \<Rightarrow> Inl f
         | Inr inCone \<Rightarrow>
             Inr (updateAlert cooled pl deltaTime inCone (canHear cooled pl cfg)
                    (closestNoise cooled cfg markers), inCone))"

text \<open>\<open>updateEnemy\<close>. Its last parameter \<open>gameState\<close> is never read and is left out. The
  function mutates \<open>enemy\<close>; the model returns the enemy with the result record.
  \<open>distToPlayer\<close> is computed before the enemy moves, and the alert phase does not move
  it.\<close>

definition updateEnemy ::
  "Enemy \<Rightarrow> Player \<Rightarrow> tilegrid \<Rightarrow> GameConfig \<Rightarrow> real \<Rightarrow> NoiseMarker list
     \<Rightarrow> failure + (Enemy \<times> EnemyResult)" where
  "updateEnemy enemy pl g cfg deltaTime markers =
     (if e_isDead enemy then
        Inr (enemy, \<lparr>detected = False, alertLevel = 0, shouldShoot = False\<rparr>)
      else
        case alertPhase enemy pl g cfg deltaTime markers of
          Inl f \<Rightarrow> Inl f
        | Inr (alerted, inCone) \<Rightarrow>
            (case stateMachine alerted pl g cfg deltaTime inCone
                    (distance (e_pos enemy) (p_pos pl)) of
               Inl f \<Rightarrow> Inl f
             | Inr (final, shoot) \<Rightarrow>
                 Inr (final, \<lparr>detected = inCone, alertLevel = e_alertLevel final,
                              shouldShoot = shoot\<rparr>)))"

section \<open>The tick (gameLoop.ts)\<close>

text \<open>The constants of \<open>COMBAT_CONFIG\<close> (config.ts) that the tick reads.\<close>

definition bulletSpeed :: real where "bulletSpeed = 15"
definition bulletLifetime :: real where "bulletLifetime = 2"
definition shootCooldown :: real where "shootCooldown = 0.3"
definition enemyShootCooldown :: real where "enemyShootCooldown = 0.8"

text \<open>Calls to \<open>audioManager\<close> only play sounds and are left out.\<close>

definition playerShoot :: "GameState \<Rightarrow> GameState" where
  "playerShoot state =
     (let pl = (player state)\<lparr>p_ammo := p_ammo (player state) - 1,
                                p_shootCooldown := shootCooldown\<rparr>;
          bullet = \<lparr>b_id = nextBulletId state, b_pos = p_pos pl,
                    b_velocity = (cos (p_angle pl) * bulletSpeed, sin (p_angle pl) * bulletSpeed),
                    b_isPlayerBullet = True, b_lifetime = bulletLifetime\<rparr>
      in state\<lparr>player := pl,
               nextBulletId := nextBulletId state + 1,
               bullets := bullets state @ [bullet],
               noiseMarkers := noiseMarkers state @
                 [\<lparr>n_pos = p_pos pl, n_radius = 6, n_lifetime = 1.5, n_maxLifetime = 1.5\<rparr>]\<rparr>)"

text \<open>\<open>enemyShoot\<close> receives the enemy object \<open>state.enemies[i]\<close>; the model receives \<open>i\<close>.\<close>

definition enemyShoot :: "GameState \<Rightarrow> nat \<Rightarrow> GameState" where
  "enemyShoot state i =
     (let enemy = (enemies state ! i)\<lparr>e_ammo := e_ammo (enemies state ! i) - 1,
                                      e_shootCooldown := enemyShootCooldown\<rparr>;
          bullet = \<lparr>b_id = nextBulletId state, b_pos = e_pos enemy,
                    b_velocity = (cos (e_angle enemy) * bulletSpeed * 0.8,
                                  sin (e_angle enemy) * bulletSpeed * 0.8),
                    b_isPlayerBullet = False, b_lifetime = bulletLifetime\<rparr>
      in state\<lparr>enemies := (enemies state)[i := enemy],
               nextBulletId := nextBulletId state + 1,
               bullets := bullets state @ [bullet],
               noiseMarkers := noiseMarkers state @
                 [\<lparr>n_pos = e_pos enemy, n_radius = 4, n_lifetime = 1, n_maxLifetime = 1\<rparr>]\<rparr>)"

text \<open>\<open>updatePlayer\<close> also clears the edge-triggered flags of the caller's input record, so
  the model returns the input with the state.\<close>

definition updatePlayer :: "GameState \<Rightarrow> InputState \<Rightarrow> real \<Rightarrow> GameState \<times> InputState" where
  "updatePlayer state input deltaTime =
     (let cfg = config state;
          sprinting = (i_sprint input \<and> \<not> i_sneak input);
          sneaking = (i_sneak input \<and> \<not> i_sprint input);
          speed = (if sprinting then playerSprintSpeed cfg
                   else if sneaking then playerSneakSpeed cfg
                   else playerWalkSpeed cfg);
          pl1 = (player state)\<lparr>
                  p_shootCooldown := max 0 (p_shootCooldown (player state) - deltaTime),
                  p_isSprinting := sprinting,
                  p_isSneaking := sneaking,
                  p_noiseLevel := (if sprinting then 1 else if sneaking then 0 else 0.3)\<rparr>;
          dx0 = (if i_left input then - 1 else 0) + (if i_right input then 1 else (0::real));
          dy0 = (if i_up input then - 1 else 0) + (if i_down input then 1 else (0::real));
          len = sqrt (dx0 * dx0 + dy0 * dy0);
          dx = (if dx0 \<noteq> 0 \<and> dy0 \<noteq> 0 then dx0 / len else dx0);
          dy = (if dx0 \<noteq> 0 \<and> dy0 \<noteq> 0 then dy0 / len else dy0);
          pl2 = (if dx \<noteq> 0 \<or> dy \<noteq> 0
                 then pl1\<lparr>p_pos := resolveCollision (grid state) (p_pos pl1)
                              (fst (p_pos pl1) + dx * speed * deltaTime,
                               snd (p_pos pl1) + dy * speed * deltaTime) 0.3\<rparr>
                 else pl1\<lparr>p_noiseLevel := 0\<rparr>);
          state1 = state\<lparr>player := pl2\<rparr>;
          state2 = (if i_interact input
                    then state1\<lparr>noiseMarkers := noiseMarkers state1 @
                           [\<lparr>n_pos = (fst (p_pos pl2) + cos (p_angle pl2) * 3,
                                      snd (p_pos pl2) + sin (p_angle pl2) * 3),
                             n_radius = 2, n_lifetime = 2, n_maxLifetime = 2\<rparr>]\<rparr>
                    else state1);
          input1 = (if i_interact input then input\<lparr>i_interact := False\<rparr> else input)
      in if i_shoot input1 \<and> p_ammo pl2 > 0 \<and> p_shootCooldown pl2 \<le> 0
         then (playerShoot state2, input1\<lparr>i_shoot := False\<rparr>)
         else (state2, input1))"

text \<open>The scan \<open>for (const enemy of enemies)\<close> of a player bullet: \<open>None\<close> when the bullet
  hits nobody, otherwise the enemies after the hit and the pickups the hit drops. The scan
  stops (\<open>break\<close>) at the first live enemy in range.\<close>

fun hitEnemy :: "Bullet \<Rightarrow> Enemy list \<Rightarrow> (Enemy list \<times> AmmoPickup list) option" where
  "hitEnemy bullet [] = None"
| "hitEnemy bullet (enemy # rest) =
     (if e_isDead enemy then
        map_option (\<lambda>(es, drops). (enemy # es, drops)) (hitEnemy bullet rest)
      else if distance (b_pos bullet) (e_pos enemy) < 0.4 then
        let damaged = enemy\<lparr>e_health := e_health enemy - 1\<rparr>
        in if e_health damaged \<le> 0 then
             Some (damaged\<lparr>e_isDead := True\<rparr> # rest,
                   [\<lparr>a_pos = (fst (e_pos damaged), snd (e_pos damaged)),
                     a_amount = e_ammo damaged div 2 + 2,
                     a_collected = False\<rparr>])
           else Some (damaged # rest, [])
      else map_option (\<lambda>(es, drops). (enemy # es, drops)) (hitEnemy bullet rest))"

text \<open>\<open>bullets.splice(i, 1)\<close>.\<close>

definition splice1 :: "nat \<Rightarrow> 'a list \<Rightarrow> 'a list" where
  "splice1 i xs = take i xs @ drop (Suc i) xs"

text \<open>The body of the loop of \<open>updateBullets\<close> at index \<open>i\<close>.\<close>

definition bulletStep :: "real \<Rightarrow> nat \<Rightarrow> GameState \<Rightarrow> GameState" where
  "bulletStep deltaTime i state =
     (let old = bullets state ! i;
          bullet = old\<lparr>b_pos := (fst (b_pos old) + fst (b_velocity old) * deltaTime,
                                 snd (b_pos old) + snd (b_velocity old) * deltaTime),
                       b_lifetime := b_lifetime old - deltaTime\<rparr>;
          moved = state\<lparr>bullets := (bullets state)[i := bullet]\<rparr>;
          removed = moved\<lparr>bullets := splice1 i (bullets moved)\<rparr>;
          tileX = \<lfloor>fst (b_pos bullet)\<rfloor>;
          tileY = \<lfloor>snd (b_pos bullet)\<rfloor>
      in if \<not> isWalkable (grid state) (of_int tileX) (of_int tileY) then removed
         else if b_lifetime bullet \<le> 0 then removed
         else if b_isPlayerBullet bullet then
           (case hitEnemy bullet (enemies state) of
              None \<Rightarrow> moved
            | Some (es, drops) \<Rightarrow>
                removed\<lparr>enemies := es, ammoPickups := ammoPickups state @ drops\<rparr>)
         else if distance (b_pos bullet) (p_pos (player state)) < 0.35 then
           let hurt = (player state)\<lparr>p_health := p_health (player state) - 1\<rparr>;
               hit = removed\<lparr>player := hurt\<rparr>
           in if p_health hurt \<le> 0 then hit\<lparr>isGameOver := True\<rparr> else hit
         else moved)"

text \<open>\<open>for (let i = bullets.length - 1; i >= 0; i--)\<close>: the first argument counts the
  indices still to visit, so the body runs at \<open>i\<close> when it is \<open>Suc i\<close>.\<close>

fun updateBullets_loop :: "real \<Rightarrow> nat \<Rightarrow> GameState \<Rightarrow> GameState" where
  "updateBullets_loop deltaTime 0 state = state"
| "updateBullets_loop deltaTime (Suc i) state =
     updateBullets_loop deltaTime i (bulletStep deltaTime i state)"

definition updateBullets :: "GameState \<Rightarrow> real \<Rightarrow> GameState" where
  "updateBullets state deltaTime = updateBullets_loop deltaTime (length (bullets state)) state"

text \<open>The body of the enemy loop of \<open>updateGame\<close> at index \<open>i\<close>, on the state and the
  running \<open>maxDetection\<close>.\<close>

definition enemyStep :: "real \<Rightarrow> nat \<Rightarrow> GameState \<times> real \<Rightarrow> failure + (GameState \<times> real)" where
  "enemyStep deltaTime i acc =
     (let state = fst acc; maxDetection = snd acc
      in if e_isDead (enemies state ! i) then Inr (state, maxDetection)
         else
           case updateEnemy (enemies state ! i) (player state) (grid state) (config state)
                  deltaTime (noiseMarkers state) of
             Inl f \<Rightarrow> Inl f
           | Inr (enemy, result) \<Rightarrow>
               let updated = state\<lparr>enemies := (enemies state)[i := enemy]\<rparr>;
                   shot = (if shouldShoot result \<and> e_ammo enemy > 0 \<and> e_shootCooldown enemy \<le> 0
                           then enemyShoot updated i else updated);
                   caught = (if distance (e_pos (enemies shot ! i)) (p_pos (player shot)) < 0.8 \<and>
                                e_alertLevel (enemies shot ! i) \<ge> 100
                             then
                               let hurt = (player shot)\<lparr>p_health := p_health (player shot) - 1\<rparr>;
                                   hit = shot\<lparr>player := hurt\<rparr>
                               in if p_health hurt \<le> 0 then hit\<lparr>isGameOver := True\<rparr> else hit
                             else shot)
               in Inr (caught, max maxDetection (alertLevel result)))"

text \<open>\<open>for (let i = 0; i < newState.enemies.length; i++)\<close>, over the list of the indices;
  the body never changes the length of \<open>enemies\<close>.\<close>

fun enemyLoop :: "real \<Rightarrow> nat list \<Rightarrow> GameState \<times> real \<Rightarrow> failure + (GameState \<times> real)" where
  "enemyLoop deltaTime [] acc = Inr acc"
| "enemyLoop deltaTime (i # rest) acc =
     (case enemyStep deltaTime i acc of
        Inl f \<Rightarrow> Inl f
      | Inr acc' \<Rightarrow> enemyLoop deltaTime rest acc')"

text \<open>The win test (lines 1023 to 1037 of the source listing).\<close>

definition checkWin :: "GameState \<Rightarrow> GameState" where
  "checkWin state =
     (let allEnemiesDead = list_all e_isDead (enemies state);
          playerTileX = \<lfloor>fst (p_pos (player state))\<rfloor>;
          playerTileY = \<lfloor>snd (p_pos (player state))\<rfloor>
      in if inBounds (grid state) playerTileY playerTileX \<and>
            tileAt (grid state) playerTileY playerTileX = Some EXIT \<and>
            allEnemiesDead
         then state\<lparr>isWin := True\<rparr> else state)"

text \<open>The pickup loop: the player (whose ammo changes) is threaded through the list.\<close>

fun collectPickups :: "Player \<Rightarrow> AmmoPickup list \<Rightarrow> Player \<times> AmmoPickup list" where
  "collectPickups pl [] = (pl, [])"
| "collectPickups pl (pickup # rest) =
     (if a_collected pickup then
        (let (pl', rest') = collectPickups pl rest in (pl', pickup # rest'))
      else if distance (p_pos pl) (a_pos pickup) < 0.7 then
        (let (pl', rest') =
               collectPickups (pl\<lparr>p_ammo := min (p_ammo pl + a_amount pickup) (p_maxAmmo pl)\<rparr>) rest
         in (pl', pickup\<lparr>a_collected := True\<rparr> # rest'))
      else
        (let (pl', rest') = collectPickups pl rest in (pl', pickup # rest')))"

definition updateGame :: "GameState \<Rightarrow> InputState \<Rightarrow> real \<Rightarrow> failure + (GameState \<times> InputState)" where
  "updateGame state input deltaTime =
     (if isPaused state \<or> isGameOver state \<or> isWin state then Inr (state, input)
      else
        let (moved, input') = updatePlayer state input deltaTime;
            decayed = moved\<lparr>noiseMarkers :=
                        filter (\<lambda>n. n_lifetime n > 0)
                          (map (\<lambda>n. n\<lparr>n_lifetime := n_lifetime n - deltaTime\<rparr>) (noiseMarkers moved))\<rparr>;
            shot = updateBullets decayed deltaTime
        in case enemyLoop deltaTime [0 ..< length (enemies shot)] (shot, 0) of
             Inl f \<Rightarrow> Inl f
           | Inr (acted, maxDetection) \<Rightarrow>
               let judged = checkWin (acted\<lparr>detectionLevel := maxDetection\<rparr>);
                   (pl, pickups) = collectPickups (player judged) (ammoPickups judged)
               in Inr (judged\<lparr>player := pl, ammoPickups := pickups\<rparr>, input'))"

text \<open>The frame loop of the canvas component calls \<open>updateGame\<close> once per frame on the
  state the previous frame returned; \<open>frames\<close> lists the input record and the elapsed time
  of each frame.\<close>

fun runFrames :: "GameState \<Rightarrow> (InputState \<times> real) list \<Rightarrow> failure + GameState" where
  "runFrames state [] = Inr state"
| "runFrames state (frame # rest) =
     (case updateGame state (fst frame) (snd frame) of
        Inl f \<Rightarrow> Inl f
      | Inr (state', input') \<Rightarrow> runFrames state' rest)"

text \<open>The state of a tick of \<open>updateGame\<close> when its first three phases (player, noise
  markers, bullets) have run, before the enemy loop and the win test.\<close>

definition afterBullets :: "GameState \<Rightarrow> InputState \<Rightarrow> real \<Rightarrow> GameState" where
  "afterBullets state input deltaTime =
     (let moved = fst (updatePlayer state input deltaTime);
          decayed = moved\<lparr>noiseMarkers :=
                      filter (\<lambda>n. n_lifetime n > 0)
                        (map (\<lambda>n. n\<lparr>n_lifetime := n_lifetime n - deltaTime\<rparr>) (noiseMarkers moved))\<rparr>
      in updateBullets decayed deltaTime)"

text \<open>The tile under the player is the exit, as the win test reads it: the player's tile
  indices are inside the grid (rows by the length of the grid, columns by the length of its
  first row), the row has that column, and the tile there is \<open>EXIT\<close>.\<close>

definition onExit :: "GameState \<Rightarrow> bool" where
  "onExit s \<longleftrightarrow>
     0 \<le> \<lfloor>snd (p_pos (player s))\<rfloor> \<and> \<lfloor>snd (p_pos (player s))\<rfloor> < int (length (grid s)) \<and>
     0 \<le> \<lfloor>fst (p_pos (player s))\<rfloor> \<and> \<lfloor>fst (p_pos (player s))\<rfloor> < int (length (grid s ! 0)) \<and>
     \<lfloor>fst (p_pos (player s))\<rfloor> < int (length (grid s ! nat \<lfloor>snd (p_pos (player s))\<rfloor>)) \<and>
     grid s ! nat \<lfloor>snd (p_pos (player s))\<rfloor> ! nat \<lfloor>fst (p_pos (player s))\<rfloor> = EXIT"

section \<open>Initial states and reachable states\<close>

text \<open>The constants of \<open>COMBAT_CONFIG\<close> and \<open>DEFAULT_CONFIG\<close> (config.ts) that initial states
  are built from; the argument of \<open>DEFAULT_CONFIG\<close> is the seed, \<open>Date.now()\<close> in the source.\<close>

definition playerStartAmmo :: int where "playerStartAmmo = 12"
definition playerMaxAmmo :: int where "playerMaxAmmo = 24"
definition playerHealth :: int where "playerHealth = 3"
definition enemyAmmo :: int where "enemyAmmo = 6"
definition enemyHealth :: int where "enemyHealth = 1"

definition DEFAULT_CONFIG :: "nat \<Rightarrow> GameConfig" where
  "DEFAULT_CONFIG now =
     \<lparr>gridWidth = 24, gridHeight = 18, tileSize = 32, visionAngle = 120, visionRange = 6,
      hearingRadius = 4, enemyCountMin = 3, enemyCountMax = 5, playerWalkSpeed = 3,
      playerSprintSpeed = 5.5, playerSneakSpeed = 1.5, enemyPatrolSpeed = 1.8,
      enemyChaseSpeed = 4, chaseDuration = 4, seed = now\<rparr>"

text \<open>The enemy record that \<open>levelDataToGameData\<close> and \<open>generateLevel\<close> both build; they
  differ in the waypoints and the speed they pass, and \<open>initGame\<close> then replaces the position
  by a safe one.\<close>

definition newEnemy :: "nat \<Rightarrow> vec2 \<Rightarrow> real \<Rightarrow> vec2 list \<Rightarrow> real \<Rightarrow> Enemy" where
  "newEnemy i pos ang waypoints speed =
     \<lparr>e_id = i, e_pos = pos, e_angle = ang, e_state = PATROL, e_waypoints = waypoints,
      e_currentWaypointIndex = 0, e_investigateTarget = None, e_lastKnownPlayerPos = None,
      e_alertLevel = 0, e_stateTimer = 0, e_speed = speed, e_ammo = enemyAmmo,
      e_maxAmmo = enemyAmmo, e_health = enemyHealth, e_shootCooldown = 0, e_isDead = False\<rparr>"

text \<open>The \<open>initialState\<close> of \<open>initGame\<close>, from the level data (grid, safe spawn position,
  enemies, pickups) and the explored-tile mask.\<close>

definition initGame ::
  "GameConfig \<Rightarrow> tilegrid \<Rightarrow> vec2 \<Rightarrow> Enemy list \<Rightarrow> AmmoPickup list \<Rightarrow> bool list list \<Rightarrow> GameState" where
  "initGame cfg g spawn es pickups explored =
     \<lparr>player = \<lparr>p_pos = spawn, p_angle = 0, p_isSprinting = False, p_isSneaking = False,
                 p_speed = playerWalkSpeed cfg, p_noiseLevel = 0, p_ammo = playerStartAmmo,
                 p_maxAmmo = playerMaxAmmo, p_health = playerHealth, p_maxHealth = playerHealth,
                 p_shootCooldown = 0\<rparr>,
      enemies = es, grid = g, config = cfg, isGameOver = False, isWin = False,
      isPaused = False, debugMode = True, detectionLevel = 0, noiseMarkers = [], bullets = [],
      ammoPickups = pickups, nextBulletId = 0, exploredTiles = explored\<rparr>"

text \<open>The states a run can be in: the initial state, the state after a frame (the frame loop
  passes the elapsed time capped at 0.1; the states counted here are those after frames whose
  elapsed time is not negative), and the changes the event handlers and the renderer make
  between frames (the mouse turns the player, the debug key toggles \<open>debugMode\<close>, the
  renderer marks explored tiles).\<close>

inductive reachable :: "GameState \<Rightarrow> bool" where
  start: "\<forall>e \<in> set es. \<exists>i pos ang waypoints speed. e = newEnemy i pos ang waypoints speed
            \<Longrightarrow> reachable (initGame cfg g spawn es pickups explored)"
| frame: "reachable s \<Longrightarrow> 0 \<le> deltaTime \<Longrightarrow> deltaTime \<le> 0.1
            \<Longrightarrow> updateGame s input deltaTime = Inr (s', input') \<Longrightarrow> reachable s'"
| mouse: "reachable s \<Longrightarrow> reachable (s\<lparr>player := (player s)\<lparr>p_angle := a\<rparr>\<rparr>)"
| debug: "reachable s \<Longrightarrow> reachable (s\<lparr>debugMode := \<not> debugMode s\<rparr>)"
| explore: "reachable s \<Longrightarrow> reachable (s\<lparr>exploredTiles := explored\<rparr>)"

text \<open>Invariants of the reachable states. The waypoint index of an enemy is inside its
  waypoint list (so \<open>patrolBehavior\<close> reads a waypoint); the alert level is between 0 and
  100; the health of an enemy is between 0 and the initial \<open>enemyHealth\<close>, and positive while
  the enemy lives. The player's health is at most \<open>maxHealth\<close>, and positive until the game
  is over.\<close>

definition waypointsValid :: "Enemy \<Rightarrow> bool" where
  "waypointsValid e \<longleftrightarrow>
     e_waypoints e = [] \<or> e_currentWaypointIndex e < length (e_waypoints e)"

definition enemyInvariant :: "Enemy \<Rightarrow> bool" where
  "enemyInvariant e \<longleftrightarrow>
     0 \<le> e_alertLevel e \<and> e_alertLevel e \<le> 100 \<and>
     0 \<le> e_health e \<and> e_health e \<le> enemyHealth \<and> (e_isDead e \<or> 1 \<le> e_health e)"

definition stateInvariant :: "GameState \<Rightarrow> bool" where
  "stateInvariant s \<longleftrightarrow>
     list_all waypointsValid (enemies s) \<and>
     list_all enemyInvariant (enemies s) \<and>
     p_health (player s) \<le> p_maxHealth (player s) \<and>
     (isGameOver s \<or> 1 \<le> p_health (player s))"

text \<open>What no phase of a tick changes, and what a phase can only lower.\<close>

definition evolves :: "GameState \<Rightarrow> GameState \<Rightarrow> bool" where
  "evolves s s' \<longleftrightarrow>
     grid s' = grid s \<and> config s' = config s \<and> isPaused s' = isPaused s \<and>
     list_all2 (\<lambda>e e'. e_health e' \<le> e_health e) (enemies s) (enemies s') \<and>
     p_health (player s') \<le> p_health (player s) \<and>
     p_maxHealth (player s') = p_maxHealth (player s)"

section \<open>An example level\<close>

text \<open>A room of six by three tiles inside walls, with a cover tile and the exit in its middle
  row; rows are listed from \<open>y = 0\<close>.\<close>

definition demoGrid :: tilegrid where
  "demoGrid =
     [[WALL, WALL,  WALL,  WALL,  WALL,  WALL,  WALL,  WALL],
      [WALL, FLOOR, FLOOR, FLOOR, FLOOR, FLOOR, FLOOR, WALL],
      [WALL, FLOOR, COVER, FLOOR, EXIT,  FLOOR, FLOOR, WALL],
      [WALL, FLOOR, FLOOR, FLOOR, FLOOR, FLOOR, FLOOR, WALL],
      [WALL, WALL,  WALL,  WALL,  WALL,  WALL,  WALL,  WALL]]"

text \<open>The same room with a wall placed in the bottom row, and with the cover tile taken
  away.\<close>

definition walledGrid :: tilegrid where
  "walledGrid = demoGrid[3 := (demoGrid ! 3)[4 := WALL]]"

definition openGrid :: tilegrid where
  "openGrid = demoGrid[2 := (demoGrid ! 2)[2 := FLOOR]]"

definition noInput :: InputState where
  "noInput = \<lparr>i_up = False, i_down = False, i_left = False, i_right = False, i_sprint = False,
              i_sneak = False, i_interact = False, i_shoot = False, i_mousePos = (0, 0),
              i_mouseDown = False\<rparr>"

text \<open>A guard in the lower left corner who faces east along the bottom row, and the player
  record of \<open>initGame\<close> at a given position.\<close>

definition demoGuard :: Enemy where
  "demoGuard = newEnemy 0 (1.5, 3.5) 0 [(1.5, 3.5), (6.5, 3.5)] 1.5"

definition demoPlayer :: "vec2 \<Rightarrow> Player" where
  "demoPlayer pos = player (initGame (DEFAULT_CONFIG 0) demoGrid pos [] [] [])"

definition demoState :: GameState where
  "demoState = initGame (DEFAULT_CONFIG 0) demoGrid (3.5, 2.5) [demoGuard] [] []"

text \<open>The example state with a bullet of the player in flight toward the guard.\<close>

definition shotState :: GameState where
  "shotState = demoState\<lparr>bullets :=
     [\<lparr>b_id = 0, b_pos = (3, 3.5), b_velocity = (- 15, 0), b_isPlayerBullet = True, b_lifetime = 2\<rparr>]\<rparr>"

text \<open>Four guards that stand on the player's own tile, as a level can place them, all in
  one state of mind; and the game in which the player stands still among them.\<close>

definition standoffGuard :: "nat \<Rightarrow> EnemyState \<Rightarrow> real \<Rightarrow> real \<Rightarrow> real \<Rightarrow> vec2 option \<Rightarrow> Enemy" where
  "standoffGuard i st alert timer speed known =
     (newEnemy i (3.5, 2.5) 0 [(3.5, 2.5)] 1.5)
       \<lparr>e_state := st, e_alertLevel := alert, e_stateTimer := timer, e_speed := speed,
        e_lastKnownPlayerPos := known\<rparr>"

definition standoff :: "int \<Rightarrow> EnemyState \<Rightarrow> real \<Rightarrow> real \<Rightarrow> real \<Rightarrow> vec2 option \<Rightarrow> GameState" where
  "standoff hp st alert timer speed known =
     (initGame (DEFAULT_CONFIG 0) demoGrid (3.5, 2.5)
        [standoffGuard 0 st alert timer speed known, standoffGuard 1 st alert timer speed known,
         standoffGuard 2 st alert timer speed known, standoffGuard 3 st alert timer speed known]
        [] [])
       \<lparr>player := (player (initGame (DEFAULT_CONFIG 0) demoGrid (3.5, 2.5) [] [] []))\<lparr>p_health := hp\<rparr>,
        detectionLevel := alert\<rparr>"

text \<open>That game after seven frames of 0.1 seconds without input (the guards investigate, at
  alert level 87.5), and after the eighth (the guards have reached alert level 100 and
  each has caught the player).\<close>

definition cornered :: GameState where
  "cornered = standoff 3 INVESTIGATE 87.5 2.7 1.5 (Some (3.5, 2.5))"

definition corneredNext :: GameState where
  "corneredNext = (standoff (- 1) CHASE 100 4 4 (Some (3.5, 2.5)))\<lparr>isGameOver := True\<rparr>"

text \<open>A duel on the exit. One guard stands on the player's spawn tile, left of the exit tile.
  In the first frame the player sprints to the right, onto the exit, and then stands still;
  \<open>duel\<close> is the game from then on, until the guard moves.\<close>

definition duelStart :: GameState where
  "duelStart = initGame (DEFAULT_CONFIG 0) demoGrid (3.5, 2.5) [newEnemy 0 (3.5, 2.5) 0 [(3.5, 2.5)] 1.5] [] []"

definition duel :: "int \<Rightarrow> bool \<Rightarrow> real \<Rightarrow> EnemyState \<Rightarrow> real \<Rightarrow> real \<Rightarrow> real \<Rightarrow> GameState" where
  "duel hp sprinting noise st alert timer speed =
     (initGame (DEFAULT_CONFIG 0) demoGrid (3.5, 2.5)
        [standoffGuard 0 st alert timer speed (Some (4.05, 2.5))] [] [])
       \<lparr>player := (player (initGame (DEFAULT_CONFIG 0) demoGrid (3.5, 2.5) [] [] []))
          \<lparr>p_pos := (4.05, 2.5), p_health := hp, p_isSprinting := sprinting, p_noiseLevel := noise\<rparr>,
        detectionLevel := alert\<rparr>"

text \<open>The duel after nine frames: the guard has caught the player twice, has stepped toward
  the player and has fired. In \<open>lastStand\<close> the player has turned to face the guard; in
  \<open>fallen\<close> the player has fired too, and both bullets have hit.\<close>

definition held :: GameState where
  "held = (duel 1 False 0 CHASE 100 4 4)
     \<lparr>enemies := [(standoffGuard 0 CHASE 100 4 4 (Some (4.05, 2.5)))
                    \<lparr>e_pos := (3.9, 2.5), e_ammo := 5, e_shootCooldown := 0.8\<rparr>],
      bullets := [\<lparr>b_id = 0, b_pos = (3.9, 2.5), b_velocity = (12, 0),
                   b_isPlayerBullet = False, b_lifetime = 2\<rparr>],
      noiseMarkers := [\<lparr>n_pos = (3.9, 2.5), n_radius = 4, n_lifetime = 1, n_maxLifetime = 1\<rparr>],
      nextBulletId := 1\<rparr>"

definition lastStand :: GameState where
  "lastStand = held\<lparr>player := (player held)\<lparr>p_angle := pi\<rparr>\<rparr>"

definition fallen :: GameState where
  "fallen = lastStand
     \<lparr>player := (player lastStand)\<lparr>p_health := 0, p_ammo := 15, p_shootCooldown := 0.3\<rparr>,
      enemies := [(standoffGuard 0 CHASE 100 4 4 (Some (4.05, 2.5)))
                    \<lparr>e_pos := (3.9, 2.5), e_ammo := 5, e_shootCooldown := 0.8,
                     e_health := 0, e_isDead := True\<rparr>],
      bullets := [],
      noiseMarkers := [\<lparr>n_pos = (3.9, 2.5), n_radius = 4, n_lifetime = 0.98, n_maxLifetime = 1\<rparr>,
                       \<lparr>n_pos = (4.05, 2.5), n_radius = 6, n_lifetime = 1.48, n_maxLifetime = 1.5\<rparr>],
      ammoPickups := [\<lparr>a_pos = (3.9, 2.5), a_amount = 4, a_collected = True\<rparr>],
      nextBulletId := 2, detectionLevel := 0, isGameOver := True, isWin := True\<rparr>"

text \<open>A level without guards in which the player spawns on the exit.\<close>

definition winStart :: GameState where
  "winStart = initGame (DEFAULT_CONFIG 0) demoGrid (4.5, 2.5) [] [] []"

section \<open>The line tracer\<close>

lemma getLinePoints_loop_returns:
  fixes i j dx dy :: int
  assumes "0 \<le> i" "i \<le> dx" "0 \<le> j" "j \<le> dy"
    and "sx = 1 \<or> sx = - 1" "sy = 1 \<or> sy = - 1"
  shows "\<exists>r. getLinePoints_loop (x0 + sx * dx) (y0 + sy * dy) dx dy sx sy
           (dx - dy - i * dy + j * dx) (x0 + sx * i) (y0 + sy * j) pts = Some r"
  using assms(1-4)
proof (induction "nat (dx - i + (dy - j))" arbitrary: i j pts rule: less_induct)
  case less
  let ?err = "dx - dy - i * dy + j * dx"
  have xeq: "x0 + sx * i = x0 + sx * dx \<longleftrightarrow> i = dx"
    using assms(5) by auto
  have yeq: "y0 + sy * j = y0 + sy * dy \<longleftrightarrow> j = dy"
    using assms(6) by auto
  show ?case
  proof (cases "i = dx \<and> j = dy")
    case True
    then show ?thesis
      by (subst getLinePoints_loop.simps) simp
  next
    case False
    define c1 where "c1 \<longleftrightarrow> 2 * ?err > - dy"
    define c2 where "c2 \<longleftrightarrow> 2 * ?err < dx"
    define i' where "i' = (if c1 then i + 1 else i)"
    define j' where "j' = (if c2 then j + 1 else j)"
    have dx0: "0 \<le> dx" and dy0: "0 \<le> dy"
      using less.prems by auto
    have nc1: "\<not> c1" if "i = dx"
    proof -
      from that False less.prems have "j + 1 \<le> dy" by auto
      then have "dx * (1 + j - dy) \<le> 0"
        using dx0 by (intro mult_nonneg_nonpos) auto
      moreover have eq: "?err = dx * (1 + j - dy) - dy"
        using that by (simp add: algebra_simps)
      ultimately have "?err \<le> - dy"
        unfolding eq by linarith
      then have "\<exists>e. e = ?err \<and> e \<le> - dy" by simp
      then obtain e where "e = ?err" "e \<le> - dy" by blast
      then have "\<not> 2 * e > - dy" using dy0 by linarith
      then show ?thesis
        unfolding c1_def using \<open>e = ?err\<close> by simp
    qed
    have nc2: "\<not> c2" if "j = dy"
    proof -
      from that False less.prems have "i + 1 \<le> dx" by auto
      then have "0 \<le> dy * (dx - i - 1)"
        using dy0 by (intro mult_nonneg_nonneg) auto
      moreover have eq: "?err = dx + dy * (dx - i - 1)"
        using that by (simp add: algebra_simps)
      ultimately have "dx \<le> ?err"
        unfolding eq by linarith
      then have "\<exists>e. e = ?err \<and> dx \<le> e" by simp
      then obtain e where "e = ?err" "dx \<le> e" by blast
      then have "\<not> 2 * e < dx" using dx0 by linarith
      then show ?thesis
        unfolding c2_def using \<open>e = ?err\<close> by simp
    qed
    have some: "c1 \<or> c2"
    proof (rule ccontr)
      assume "\<not> (c1 \<or> c2)"
      then have "\<exists>e::int. 2 * e \<le> - dy \<and> dx \<le> 2 * e"
        unfolding c1_def c2_def by (intro exI [of _ ?err]) simp
      then have "dx \<le> - dy"
        by auto
      with dx0 dy0 less.prems False show False by auto
    qed
    have bi: "0 \<le> i'" "i' \<le> dx"
      using less.prems nc1 by (cases "i = dx"; simp add: i'_def)+
    have bj: "0 \<le> j'" "j' \<le> dy"
      using less.prems nc2 by (cases "j = dy"; simp add: j'_def)+
    have dec: "nat (dx - i' + (dy - j')) < nat (dx - i + (dy - j))"
      using some bi bj less.prems by (auto simp: i'_def j'_def)
    have err': "(if 2 * ?err > - dy then ?err - dy else ?err) + (if 2 * ?err < dx then dx else 0)
                  = dx - dy - i' * dy + j' * dx"
      by (simp add: i'_def j'_def c1_def c2_def algebra_simps)
    have x': "(if 2 * ?err > - dy then x0 + sx * i + sx else x0 + sx * i) = x0 + sx * i'"
      by (simp add: i'_def c1_def algebra_simps)
    have y': "(if 2 * ?err < dx then y0 + sy * j + sy else y0 + sy * j) = y0 + sy * j'"
      by (simp add: j'_def c2_def algebra_simps)
    have "\<exists>r. getLinePoints_loop (x0 + sx * dx) (y0 + sy * dy) dx dy sx sy
           (dx - dy - i' * dy + j' * dx) (x0 + sx * i') (y0 + sy * j')
           (pts @ [(x0 + sx * i, y0 + sy * j)]) = Some r"
      by (rule less.hyps [OF dec bi(1) bi(2) bj(1) bj(2)])
    moreover have "getLinePoints_loop (x0 + sx * dx) (y0 + sy * dy) dx dy sx sy
           ?err (x0 + sx * i) (y0 + sy * j) pts
         = getLinePoints_loop (x0 + sx * dx) (y0 + sy * dy) dx dy sx sy
           (dx - dy - i' * dy + j' * dx) (x0 + sx * i') (y0 + sy * j')
           (pts @ [(x0 + sx * i, y0 + sy * j)])"
      using False xeq yeq
      by (subst getLinePoints_loop.simps) (simp only: err' x' y' if_False simp_thms)
    ultimately show ?thesis by simp
  qed
qed

lemma getLinePoints_returns: "\<exists>points. getLinePoints x0 y0 x1 y1 = Some points"
proof -
  define sx :: int where "sx = (if x0 < x1 then 1 else - 1)"
  define sy :: int where "sy = (if y0 < y1 then 1 else - 1)"
  have x1: "x1 = x0 + sx * \<bar>x1 - x0\<bar>" and y1: "y1 = y0 + sy * \<bar>y1 - y0\<bar>"
    by (auto simp: sx_def sy_def)
  have "\<exists>r. getLinePoints_loop (x0 + sx * \<bar>x1 - x0\<bar>) (y0 + sy * \<bar>y1 - y0\<bar>) \<bar>x1 - x0\<bar> \<bar>y1 - y0\<bar> sx sy
           (\<bar>x1 - x0\<bar> - \<bar>y1 - y0\<bar> - 0 * \<bar>y1 - y0\<bar> + 0 * \<bar>x1 - x0\<bar>) (x0 + sx * 0) (y0 + sy * 0) [] = Some r"
    by (rule getLinePoints_loop_returns) (auto simp: sx_def sy_def)
  then show ?thesis
    using x1 y1 by (simp add: getLinePoints_def Let_def sx_def [symmetric] sy_def [symmetric])
qed

text \<open>The cells of the traced line. With \<open>dx\<close> and \<open>dy\<close> the absolute differences of
  the end cells, \<open>i\<close> and \<open>j\<close> the steps taken so far along \<open>x\<close> and \<open>y\<close>, the variable \<open>err\<close>
  is \<open>dx - dy + D\<close> for \<open>D = j * dx - i * dy\<close>, and \<open>D\<close> measures how far the cell is from
  the straight segment. When \<open>dy \<le> dx\<close> every iteration steps along \<open>x\<close> and
  \<open>-dx \<le> 2 * D < dx\<close> is kept; when \<open>dx < dy\<close> every iteration steps along \<open>y\<close> and
  \<open>-dy < 2 * D \<le> dy\<close> is kept.\<close>

lemma getLinePoints_loop_xmajor:
  fixes i j dx dy D :: int
  assumes major: "dy \<le> dx" and pos: "0 < dx" "0 \<le> dy"
    and signs: "sx = 1 \<or> sx = - 1" "sy = 1 \<or> sy = - 1"
    and inv: "0 \<le> i" "i \<le> dx" "0 \<le> j" "j \<le> i"
      "- dx \<le> 2 * D" "2 * D < dx" "dy - 2 * dx < 2 * D"
    and D: "D = j * dx - i * dy"
  shows "\<exists>rest. getLinePoints_loop (x0 + sx * dx) (y0 + sy * dy) dx dy sx sy (dx - dy + D)
             (x0 + sx * i) (y0 + sy * j) pts = Some (pts @ rest) \<and>
           length rest = nat (dx - i) + 1 \<and>
           last rest = (x0 + sx * dx, y0 + sy * dy) \<and>
           (\<forall>n < length rest. \<exists>j'. rest ! n = (x0 + sx * (i + int n), y0 + sy * j') \<and>
              0 \<le> j' \<and> j' \<le> i + int n \<and> 2 * \<bar>j' * dx - (i + int n) * dy\<bar> \<le> dx)"
  using inv D
proof (induction "nat (dx - i)" arbitrary: i j D pts rule: less_induct)
  case less
  have "2 * \<bar>D\<bar> \<le> dx"
    using less.prems(5,6) by linarith
  then have close: "2 * \<bar>j * dx - i * dy\<bar> \<le> dx"
    unfolding less.prems(8) .
  show ?case
  proof (cases "i = dx")
    case True
    have "D = dx * (j - dy)"
      using less.prems(8) True by (simp add: algebra_simps)
    have "j = dy"
    proof (rule ccontr)
      assume "j \<noteq> dy"
      then consider "1 \<le> j - dy" | "j - dy \<le> - 1" by linarith
      then show False
      proof cases
        case 1
        then have "dx * 1 \<le> dx * (j - dy)"
          using pos(1) by (intro mult_left_mono) auto
        with \<open>D = dx * (j - dy)\<close> less.prems(6) pos(1) show False by linarith
      next
        case 2
        then have "dx * (j - dy) \<le> dx * (- 1)"
          using pos(1) by (intro mult_left_mono) auto
        with \<open>D = dx * (j - dy)\<close> less.prems(5) pos(1) show False by linarith
      qed
    qed
    have run: "getLinePoints_loop (x0 + sx * dx) (y0 + sy * dy) dx dy sx sy (dx - dy + D)
             (x0 + sx * i) (y0 + sy * j) pts = Some (pts @ [(x0 + sx * dx, y0 + sy * dy)])"
      using True \<open>j = dy\<close> by (subst getLinePoints_loop.simps) simp
    show ?thesis
    proof (intro exI [of _ "[(x0 + sx * dx, y0 + sy * dy)]"] conjI allI impI)
      show "getLinePoints_loop (x0 + sx * dx) (y0 + sy * dy) dx dy sx sy (dx - dy + D)
             (x0 + sx * i) (y0 + sy * j) pts = Some (pts @ [(x0 + sx * dx, y0 + sy * dy)])"
        by (rule run)
      show "length [(x0 + sx * dx, y0 + sy * dy)] = nat (dx - i) + 1"
        using True by simp
      show "last [(x0 + sx * dx, y0 + sy * dy)] = (x0 + sx * dx, y0 + sy * dy)"
        by simp
      fix n assume "n < length [(x0 + sx * dx, y0 + sy * dy)]"
      then have "n = 0" by simp
      show "\<exists>j'. [(x0 + sx * dx, y0 + sy * dy)] ! n = (x0 + sx * (i + int n), y0 + sy * j') \<and>
              0 \<le> j' \<and> j' \<le> i + int n \<and> 2 * \<bar>j' * dx - (i + int n) * dy\<bar> \<le> dx"
        using True \<open>j = dy\<close> \<open>n = 0\<close> major pos by (intro exI [of _ dy]) (simp add: algebra_simps)
    qed
  next
    case False
    with less.prems have lt: "i < dx" by simp
    have xne: "x0 + sx * i \<noteq> x0 + sx * dx"
      using signs(1) False by auto
    define c2 where "c2 \<longleftrightarrow> 2 * (dx - dy + D) < dx"
    define j' where "j' = (if c2 then j + 1 else j)"
    define D' where "D' = (if c2 then D - dy + dx else D - dy)"
    have c1: "2 * (dx - dy + D) > - dy"
      using less.prems(7) by simp
    have D'eq: "D' = j' * dx - (i + 1) * dy"
      using less.prems(8) by (simp add: D'_def j'_def algebra_simps)
    have inv': "0 \<le> i + 1" "i + 1 \<le> dx" "0 \<le> j'" "j' \<le> i + 1"
        "- dx \<le> 2 * D'" "2 * D' < dx" "dy - 2 * dx < 2 * D'"
      using less.prems(1-7) lt major pos by (auto simp: j'_def D'_def c2_def)
    have dec: "nat (dx - (i + 1)) < nat (dx - i)"
      using lt by simp
    have step: "getLinePoints_loop (x0 + sx * dx) (y0 + sy * dy) dx dy sx sy (dx - dy + D)
             (x0 + sx * i) (y0 + sy * j) pts
          = getLinePoints_loop (x0 + sx * dx) (y0 + sy * dy) dx dy sx sy (dx - dy + D')
             (x0 + sx * (i + 1)) (y0 + sy * j') (pts @ [(x0 + sx * i, y0 + sy * j)])"
      using xne c1
      by (subst getLinePoints_loop.simps) (simp add: c2_def j'_def D'_def algebra_simps)
    from less.hyps [OF dec inv' D'eq, of "pts @ [(x0 + sx * i, y0 + sy * j)]"]
    obtain rest where rest:
      "getLinePoints_loop (x0 + sx * dx) (y0 + sy * dy) dx dy sx sy (dx - dy + D')
             (x0 + sx * (i + 1)) (y0 + sy * j') (pts @ [(x0 + sx * i, y0 + sy * j)])
         = Some ((pts @ [(x0 + sx * i, y0 + sy * j)]) @ rest)"
      "length rest = nat (dx - (i + 1)) + 1"
      "last rest = (x0 + sx * dx, y0 + sy * dy)"
      "\<forall>n < length rest. \<exists>j''. rest ! n = (x0 + sx * (i + 1 + int n), y0 + sy * j'') \<and>
              0 \<le> j'' \<and> j'' \<le> i + 1 + int n \<and> 2 * \<bar>j'' * dx - (i + 1 + int n) * dy\<bar> \<le> dx"
      by blast
    show ?thesis
    proof (intro exI [of _ "(x0 + sx * i, y0 + sy * j) # rest"] conjI allI impI)
      show "getLinePoints_loop (x0 + sx * dx) (y0 + sy * dy) dx dy sx sy (dx - dy + D)
             (x0 + sx * i) (y0 + sy * j) pts = Some (pts @ (x0 + sx * i, y0 + sy * j) # rest)"
        using step rest(1) by simp
      show "length ((x0 + sx * i, y0 + sy * j) # rest) = nat (dx - i) + 1"
        using rest(2) lt by simp
      show "last ((x0 + sx * i, y0 + sy * j) # rest) = (x0 + sx * dx, y0 + sy * dy)"
        using rest(2,3) by (cases rest) simp_all
      fix n assume n: "n < length ((x0 + sx * i, y0 + sy * j) # rest)"
      show "\<exists>j'. ((x0 + sx * i, y0 + sy * j) # rest) ! n = (x0 + sx * (i + int n), y0 + sy * j') \<and>
              0 \<le> j' \<and> j' \<le> i + int n \<and> 2 * \<bar>j' * dx - (i + int n) * dy\<bar> \<le> dx"
      proof (cases n)
        case 0
        then show ?thesis
          using less.prems(3,4) close by (intro exI [of _ j]) simp
      next
        case (Suc k)
        with n have "k < length rest" by simp
        with rest(4) obtain j'' where
          "rest ! k = (x0 + sx * (i + 1 + int k), y0 + sy * j'')"
          "0 \<le> j''" "j'' \<le> i + 1 + int k" "2 * \<bar>j'' * dx - (i + 1 + int k) * dy\<bar> \<le> dx"
          by blast
        then show ?thesis
          using Suc by (intro exI [of _ j'']) (simp add: algebra_simps)
      qed
    qed
  qed
qed

lemma getLinePoints_loop_ymajor:
  fixes i j dx dy D :: int
  assumes major: "dx < dy" and pos: "0 \<le> dx"
    and signs: "sx = 1 \<or> sx = - 1" "sy = 1 \<or> sy = - 1"
    and inv: "0 \<le> j" "j \<le> dy" "0 \<le> i" "i \<le> j" "- dy < 2 * D" "2 * D \<le> dy"
    and D: "D = j * dx - i * dy"
  shows "\<exists>rest. getLinePoints_loop (x0 + sx * dx) (y0 + sy * dy) dx dy sx sy (dx - dy + D)
             (x0 + sx * i) (y0 + sy * j) pts = Some (pts @ rest) \<and>
           length rest = nat (dy - j) + 1 \<and>
           last rest = (x0 + sx * dx, y0 + sy * dy) \<and>
           (\<forall>n < length rest. \<exists>i'. rest ! n = (x0 + sx * i', y0 + sy * (j + int n)) \<and>
              0 \<le> i' \<and> i' \<le> j + int n \<and> 2 * \<bar>(j + int n) * dx - i' * dy\<bar> \<le> dy)"
  using inv D
proof (induction "nat (dy - j)" arbitrary: i j D pts rule: less_induct)
  case less
  have dy: "0 < dy"
    using major pos by simp
  have "2 * \<bar>D\<bar> \<le> dy"
    using less.prems(5,6) by linarith
  then have close: "2 * \<bar>j * dx - i * dy\<bar> \<le> dy"
    unfolding less.prems(7) .
  show ?case
  proof (cases "j = dy")
    case True
    have "D = dy * (dx - i)"
      using less.prems(7) True by (simp add: algebra_simps)
    have "i = dx"
    proof (rule ccontr)
      assume "i \<noteq> dx"
      then consider "1 \<le> dx - i" | "dx - i \<le> - 1" by linarith
      then show False
      proof cases
        case 1
        then have "dy * 1 \<le> dy * (dx - i)"
          using dy by (intro mult_left_mono) auto
        with \<open>D = dy * (dx - i)\<close> less.prems(6) dy show False by linarith
      next
        case 2
        then have "dy * (dx - i) \<le> dy * (- 1)"
          using dy by (intro mult_left_mono) auto
        with \<open>D = dy * (dx - i)\<close> less.prems(5) dy show False by linarith
      qed
    qed
    have run: "getLinePoints_loop (x0 + sx * dx) (y0 + sy * dy) dx dy sx sy (dx - dy + D)
             (x0 + sx * i) (y0 + sy * j) pts = Some (pts @ [(x0 + sx * dx, y0 + sy * dy)])"
      using True \<open>i = dx\<close> by (subst getLinePoints_loop.simps) simp
    show ?thesis
    proof (intro exI [of _ "[(x0 + sx * dx, y0 + sy * dy)]"] conjI allI impI)
      show "getLinePoints_loop (x0 + sx * dx) (y0 + sy * dy) dx dy sx sy (dx - dy + D)
             (x0 + sx * i) (y0 + sy * j) pts = Some (pts @ [(x0 + sx * dx, y0 + sy * dy)])"
        by (rule run)
      show "length [(x0 + sx * dx, y0 + sy * dy)] = nat (dy - j) + 1"
        using True by simp
      show "last [(x0 + sx * dx, y0 + sy * dy)] = (x0 + sx * dx, y0 + sy * dy)"
        by simp
      fix n assume "n < length [(x0 + sx * dx, y0 + sy * dy)]"
      then have "n = 0" by simp
      show "\<exists>i'. [(x0 + sx * dx, y0 + sy * dy)] ! n = (x0 + sx * i', y0 + sy * (j + int n)) \<and>
              0 \<le> i' \<and> i' \<le> j + int n \<and> 2 * \<bar>(j + int n) * dx - i' * dy\<bar> \<le> dy"
        using True \<open>i = dx\<close> \<open>n = 0\<close> major pos by (intro exI [of _ dx]) (simp add: algebra_simps)
    qed
  next
    case False
    with less.prems have lt: "j < dy" by simp
    have yne: "y0 + sy * j \<noteq> y0 + sy * dy"
      using signs(2) False by auto
    define c1 where "c1 \<longleftrightarrow> 2 * (dx - dy + D) > - dy"
    define i' where "i' = (if c1 then i + 1 else i)"
    define D' where "D' = (if c1 then D - dy + dx else D + dx)"
    have c2: "2 * (dx - dy + D) < dx"
      using less.prems(6) major by simp
    have D'eq: "D' = (j + 1) * dx - i' * dy"
      using less.prems(7) by (simp add: D'_def i'_def algebra_simps)
    have inv': "0 \<le> j + 1" "j + 1 \<le> dy" "0 \<le> i'" "i' \<le> j + 1"
        "- dy < 2 * D'" "2 * D' \<le> dy"
      using less.prems(1-6) lt major pos by (auto simp: i'_def D'_def c1_def)
    have dec: "nat (dy - (j + 1)) < nat (dy - j)"
      using lt by simp
    have step: "getLinePoints_loop (x0 + sx * dx) (y0 + sy * dy) dx dy sx sy (dx - dy + D)
             (x0 + sx * i) (y0 + sy * j) pts
          = getLinePoints_loop (x0 + sx * dx) (y0 + sy * dy) dx dy sx sy (dx - dy + D')
             (x0 + sx * i') (y0 + sy * (j + 1)) (pts @ [(x0 + sx * i, y0 + sy * j)])"
      using yne c2
      by (subst getLinePoints_loop.simps) (simp add: c1_def i'_def D'_def algebra_simps)
    from less.hyps [OF dec inv' D'eq, of "pts @ [(x0 + sx * i, y0 + sy * j)]"]
    obtain rest where rest:
      "getLinePoints_loop (x0 + sx * dx) (y0 + sy * dy) dx dy sx sy (dx - dy + D')
             (x0 + sx * i') (y0 + sy * (j + 1)) (pts @ [(x0 + sx * i, y0 + sy * j)])
         = Some ((pts @ [(x0 + sx * i, y0 + sy * j)]) @ rest)"
      "length rest = nat (dy - (j + 1)) + 1"
      "last rest = (x0 + sx * dx, y0 + sy * dy)"
      "\<forall>n < length rest. \<exists>i''. rest ! n = (x0 + sx * i'', y0 + sy * (j + 1 + int n)) \<and>
              0 \<le> i'' \<and> i'' \<le> j + 1 + int n \<and> 2 * \<bar>(j + 1 + int n) * dx - i'' * dy\<bar> \<le> dy"
      by blast
    show ?thesis
    proof (intro exI [of _ "(x0 + sx * i, y0 + sy * j) # rest"] conjI allI impI)
      show "getLinePoints_loop (x0 + sx * dx) (y0 + sy * dy) dx dy sx sy (dx - dy + D)
             (x0 + sx * i) (y0 + sy * j) pts = Some (pts @ (x0 + sx * i, y0 + sy * j) # rest)"
        using step rest(1) by simp
      show "length ((x0 + sx * i, y0 + sy * j) # rest) = nat (dy - j) + 1"
        using rest(2) lt by simp
      show "last ((x0 + sx * i, y0 + sy * j) # rest) = (x0 + sx * dx, y0 + sy * dy)"
        using rest(2,3) by (cases rest) simp_all
      fix n assume n: "n < length ((x0 + sx * i, y0 + sy * j) # rest)"
      show "\<exists>i'. ((x0 + sx * i, y0 + sy * j) # rest) ! n = (x0 + sx * i', y0 + sy * (j + int n)) \<and>
              0 \<le> i' \<and> i' \<le> j + int n \<and> 2 * \<bar>(j + int n) * dx - i' * dy\<bar> \<le> dy"
      proof (cases n)
        case 0
        then show ?thesis
          using less.prems(3,4) close by (intro exI [of _ i]) simp
      next
        case (Suc k)
        with n have "k < length rest" by simp
        with rest(4) obtain i'' where
          "rest ! k = (x0 + sx * i'', y0 + sy * (j + 1 + int k))"
          "0 \<le> i''" "i'' \<le> j + 1 + int k" "2 * \<bar>(j + 1 + int k) * dx - i'' * dy\<bar> \<le> dy"
          by blast
        then show ?thesis
          using Suc by (intro exI [of _ i'']) (simp add: algebra_simps)
      qed
    qed
  qed
qed

text \<open>The traced line from \<open>(x0, y0)\<close> to \<open>(x1, y1)\<close> has one cell for each step along the
  longer axis. Its cell number \<open>n\<close> is \<open>n\<close> steps from the first cell (in the larger of the
  two coordinate differences), lies on the side of the last cell, and is within half a cell
  of the straight segment between the end cells: twice the cross product of its offset
  with the offset of the last cell is at most the length of the longer axis.\<close>

lemma getLinePoints_cells:
  fixes x0 y0 x1 y1 :: int
  shows "\<exists>cells. getLinePoints x0 y0 x1 y1 = Some cells \<and>
      length cells = nat (max \<bar>x1 - x0\<bar> \<bar>y1 - y0\<bar>) + 1 \<and>
      hd cells = (x0, y0) \<and> last cells = (x1, y1) \<and>
      (\<forall>n < length cells.
         max \<bar>fst (cells ! n) - x0\<bar> \<bar>snd (cells ! n) - y0\<bar> = int n \<and>
         0 \<le> (fst (cells ! n) - x0) * (x1 - x0) \<and>
         0 \<le> (snd (cells ! n) - y0) * (y1 - y0) \<and>
         2 * \<bar>(snd (cells ! n) - y0) * (x1 - x0) - (fst (cells ! n) - x0) * (y1 - y0)\<bar>
           \<le> max \<bar>x1 - x0\<bar> \<bar>y1 - y0\<bar>)"
proof -
  define dx where "dx = \<bar>x1 - x0\<bar>"
  define dy where "dy = \<bar>y1 - y0\<bar>"
  define sx :: int where "sx = (if x0 < x1 then 1 else - 1)"
  define sy :: int where "sy = (if y0 < y1 then 1 else - 1)"
  have x1: "x1 = x0 + sx * dx" and y1: "y1 = y0 + sy * dy"
    by (auto simp: sx_def sy_def dx_def dy_def)
  have X: "x1 - x0 = sx * dx" and Y: "y1 - y0 = sy * dy"
    using x1 y1 by simp_all
  have signs: "sx = 1 \<or> sx = - 1" "sy = 1 \<or> sy = - 1"
    by (auto simp: sx_def sy_def)
  have nonneg: "0 \<le> dx" "0 \<le> dy"
    by (simp_all add: dx_def dy_def)
  have run0: "getLinePoints x0 y0 x1 y1 = getLinePoints_loop x1 y1 dx dy sx sy (dx - dy) x0 y0 []"
    by (simp add: getLinePoints_def Let_def sx_def sy_def dx_def dy_def)
  have run: "getLinePoints x0 y0 x1 y1
      = getLinePoints_loop (x0 + sx * dx) (y0 + sy * dy) dx dy sx sy (dx - dy + 0)
          (x0 + sx * 0) (y0 + sy * 0) []"
    using run0 x1 [symmetric] y1 [symmetric] by simp
  consider (point) "dx = 0" "dy = 0" | (xmajor) "dy \<le> dx" "0 < dx" | (ymajor) "dx < dy"
    using nonneg by linarith
  then have "\<exists>cells. getLinePoints x0 y0 x1 y1 = Some cells \<and>
      length cells = nat (max dx dy) + 1 \<and>
      hd cells = (x0, y0) \<and> last cells = (x1, y1) \<and>
      (\<forall>n < length cells.
         max \<bar>fst (cells ! n) - x0\<bar> \<bar>snd (cells ! n) - y0\<bar> = int n \<and>
         0 \<le> (fst (cells ! n) - x0) * (sx * dx) \<and>
         0 \<le> (snd (cells ! n) - y0) * (sy * dy) \<and>
         2 * \<bar>(snd (cells ! n) - y0) * (sx * dx) - (fst (cells ! n) - x0) * (sy * dy)\<bar>
           \<le> max dx dy)"
  proof cases
    case point
    then have "getLinePoints x0 y0 x1 y1 = Some [(x0, y0)]"
      unfolding run by (subst getLinePoints_loop.simps) simp
    then show ?thesis
      using point x1 y1 by simp
  next
    case xmajor
    from getLinePoints_loop_xmajor [OF xmajor(1,2) nonneg(2) signs, of 0 0 0 x0 y0 "[]"] xmajor
    obtain rest where rest:
      "getLinePoints x0 y0 x1 y1 = Some rest"
      "length rest = nat dx + 1"
      "last rest = (x1, y1)"
      "\<forall>n < length rest. \<exists>j'. rest ! n = (x0 + sx * int n, y0 + sy * j') \<and>
              0 \<le> j' \<and> j' \<le> int n \<and> 2 * \<bar>j' * dx - int n * dy\<bar> \<le> dx"
      unfolding run x1 [symmetric] y1 [symmetric] by auto
    have cell: "max \<bar>fst (rest ! n) - x0\<bar> \<bar>snd (rest ! n) - y0\<bar> = int n \<and>
         0 \<le> (fst (rest ! n) - x0) * (sx * dx) \<and>
         0 \<le> (snd (rest ! n) - y0) * (sy * dy) \<and>
         2 * \<bar>(snd (rest ! n) - y0) * (sx * dx) - (fst (rest ! n) - x0) * (sy * dy)\<bar>
           \<le> max dx dy" if "n < length rest" for n
    proof -
      from rest(4) that obtain j' where j':
        "rest ! n = (x0 + sx * int n, y0 + sy * j')" "0 \<le> j'" "j' \<le> int n"
        "2 * \<bar>j' * dx - int n * dy\<bar> \<le> dx"
        by blast
      have a: "0 \<le> int n * dx" "0 \<le> j' * dy"
        using nonneg j'(2) by simp_all
      show ?thesis
        using signs j' a xmajor(1) abs_minus_commute [of "j' * dx" "int n * dy"]
        by (auto simp: abs_mult algebra_simps)
    qed
    have "hd rest = (x0, y0)"
    proof -
      from rest(2,4) obtain j' where "rest ! 0 = (x0 + sx * int 0, y0 + sy * j')" "0 \<le> j'" "j' \<le> int 0"
        by auto
      then have "rest ! 0 = (x0, y0)" by simp
      moreover have "rest \<noteq> []" using rest(2) by auto
      ultimately show ?thesis by (simp add: hd_conv_nth)
    qed
    with rest(1-3) cell xmajor show ?thesis
      by (intro exI [of _ rest]) (simp add: max_def)
  next
    case ymajor
    have dy: "0 \<le> dy" "0 < dy" using ymajor nonneg by simp_all
    from getLinePoints_loop_ymajor [OF ymajor nonneg(1) signs, of 0 0 0 x0 y0 "[]"] dy
    obtain rest where rest:
      "getLinePoints x0 y0 x1 y1 = Some rest"
      "length rest = nat dy + 1"
      "last rest = (x1, y1)"
      "\<forall>n < length rest. \<exists>i'. rest ! n = (x0 + sx * i', y0 + sy * int n) \<and>
              0 \<le> i' \<and> i' \<le> int n \<and> 2 * \<bar>int n * dx - i' * dy\<bar> \<le> dy"
      unfolding run x1 [symmetric] y1 [symmetric] by auto
    have cell: "max \<bar>fst (rest ! n) - x0\<bar> \<bar>snd (rest ! n) - y0\<bar> = int n \<and>
         0 \<le> (fst (rest ! n) - x0) * (sx * dx) \<and>
         0 \<le> (snd (rest ! n) - y0) * (sy * dy) \<and>
         2 * \<bar>(snd (rest ! n) - y0) * (sx * dx) - (fst (rest ! n) - x0) * (sy * dy)\<bar>
           \<le> max dx dy" if "n < length rest" for n
    proof -
      from rest(4) that obtain i' where i':
        "rest ! n = (x0 + sx * i', y0 + sy * int n)" "0 \<le> i'" "i' \<le> int n"
        "2 * \<bar>int n * dx - i' * dy\<bar> \<le> dy"
        by blast
      have a: "0 \<le> i' * dx" "0 \<le> int n * dy"
        using nonneg i'(2) by simp_all
      show ?thesis
        using signs i' a ymajor abs_minus_commute [of "int n * dx" "i' * dy"]
        by (auto simp: abs_mult algebra_simps)
    qed
    have "hd rest = (x0, y0)"
    proof -
      from rest(2,4) obtain i' where "rest ! 0 = (x0 + sx * i', y0 + sy * int 0)" "0 \<le> i'" "i' \<le> int 0"
        by auto
      then have "rest ! 0 = (x0, y0)" by simp
      moreover have "rest \<noteq> []" using rest(2) by auto
      ultimately show ?thesis by (simp add: hd_conv_nth)
    qed
    with rest(1-3) cell ymajor show ?thesis
      by (intro exI [of _ rest]) (simp add: max_def)
  qed
  then have "\<exists>cells. getLinePoints x0 y0 x1 y1 = Some cells \<and>
      length cells = nat (max dx dy) + 1 \<and>
      hd cells = (x0, y0) \<and> last cells = (x1, y1) \<and>
      (\<forall>n < length cells.
         max \<bar>fst (cells ! n) - x0\<bar> \<bar>snd (cells ! n) - y0\<bar> = int n \<and>
         0 \<le> (fst (cells ! n) - x0) * (x1 - x0) \<and>
         0 \<le> (snd (cells ! n) - y0) * (y1 - y0) \<and>
         2 * \<bar>(snd (cells ! n) - y0) * (x1 - x0) - (fst (cells ! n) - x0) * (y1 - y0)\<bar>
           \<le> max dx dy)"
    unfolding X [symmetric] Y [symmetric] .
  then show ?thesis
    unfolding dx_def dy_def .
qed

section \<open>Angles\<close>

lemma normalizeAngle_down_le: "normalizeAngle_down a \<le> pi"
  by (induction a rule: normalizeAngle_down.induct)
     (subst normalizeAngle_down.simps, simp)

lemma normalizeAngle_down_id: "a \<le> pi \<Longrightarrow> normalizeAngle_down a = a"
  by (subst normalizeAngle_down.simps) simp

lemma normalizeAngle_down_gt: "pi < a \<Longrightarrow> - pi < normalizeAngle_down a"
proof (induction a rule: normalizeAngle_down.induct)
  case (1 angle)
  show ?case
  proof (cases "pi < angle - pi * 2")
    case True
    then show ?thesis
      using 1 by (subst normalizeAngle_down.simps) simp
  next
    case False
    then have "normalizeAngle_down (angle - pi * 2) = angle - pi * 2"
      by (simp add: normalizeAngle_down_id)
    then show ?thesis
      using 1(2) by (subst normalizeAngle_down.simps) simp
  qed
qed

lemma normalizeAngle_down_cong: "\<exists>n::nat. normalizeAngle_down a = a - 2 * pi * real n"
proof (induction a rule: normalizeAngle_down.induct)
  case (1 angle)
  show ?case
  proof (cases "pi < angle")
    case True
    with 1 obtain n :: nat where "normalizeAngle_down (angle - pi * 2) = angle - pi * 2 - 2 * pi * real n"
      by blast
    then have "normalizeAngle_down angle = angle - 2 * pi * real (Suc n)"
      using True by (subst normalizeAngle_down.simps) (simp add: algebra_simps)
    then show ?thesis by blast
  next
    case False
    then have "normalizeAngle_down angle = angle - 2 * pi * real 0"
      by (simp add: normalizeAngle_down_id)
    then show ?thesis by blast
  qed
qed

lemma normalizeAngle_up_ge: "- pi \<le> normalizeAngle_up a"
  by (induction a rule: normalizeAngle_up.induct)
     (subst normalizeAngle_up.simps, simp)

lemma normalizeAngle_up_id: "- pi \<le> a \<Longrightarrow> normalizeAngle_up a = a"
  by (subst normalizeAngle_up.simps) simp

lemma normalizeAngle_up_lt: "a < - pi \<Longrightarrow> normalizeAngle_up a < pi"
proof (induction a rule: normalizeAngle_up.induct)
  case (1 angle)
  show ?case
  proof (cases "angle + pi * 2 < - pi")
    case True
    then show ?thesis
      using 1 by (subst normalizeAngle_up.simps) simp
  next
    case False
    then have "normalizeAngle_up (angle + pi * 2) = angle + pi * 2"
      by (simp add: normalizeAngle_up_id)
    then show ?thesis
      using 1(2) by (subst normalizeAngle_up.simps) simp
  qed
qed

lemma normalizeAngle_up_cong: "\<exists>n::nat. normalizeAngle_up a = a + 2 * pi * real n"
proof (induction a rule: normalizeAngle_up.induct)
  case (1 angle)
  show ?case
  proof (cases "angle < - pi")
    case True
    with 1 obtain n :: nat where "normalizeAngle_up (angle + pi * 2) = angle + pi * 2 + 2 * pi * real n"
      by blast
    then have "normalizeAngle_up angle = angle + 2 * pi * real (Suc n)"
      using True by (subst normalizeAngle_up.simps) (simp add: algebra_simps)
    then show ?thesis by blast
  next
    case False
    then have "normalizeAngle_up angle = angle + 2 * pi * real 0"
      by (simp add: normalizeAngle_up_id)
    then show ?thesis by blast
  qed
qed

lemma normalizeAngle_range: "- pi \<le> normalizeAngle a \<and> normalizeAngle a \<le> pi"
proof (cases "pi < a")
  case True
  then have "- pi < normalizeAngle_down a"
    by (rule normalizeAngle_down_gt)
  then have "normalizeAngle a = normalizeAngle_down a"
    by (simp add: normalizeAngle_def normalizeAngle_up_id)
  then show ?thesis
    using normalizeAngle_down_le [of a] \<open>- pi < normalizeAngle_down a\<close> by simp
next
  case False
  then have eq: "normalizeAngle a = normalizeAngle_up a"
    by (simp add: normalizeAngle_def normalizeAngle_down_id)
  show ?thesis
  proof (cases "a < - pi")
    case True
    then show ?thesis
      using normalizeAngle_up_lt [of a] normalizeAngle_up_ge [of a] eq by simp
  next
    case False
    then show ?thesis
      using \<open>\<not> pi < a\<close> eq by (simp add: normalizeAngle_up_id)
  qed
qed

lemma normalizeAngle_cong: "\<exists>k::int. normalizeAngle a = a + 2 * pi * real_of_int k"
proof -
  obtain n :: nat where n: "normalizeAngle_down a = a - 2 * pi * real n"
    using normalizeAngle_down_cong by blast
  obtain m :: nat where m: "normalizeAngle_up (normalizeAngle_down a) = normalizeAngle_down a + 2 * pi * real m"
    using normalizeAngle_up_cong by blast
  have "normalizeAngle a = a - 2 * pi * real n + 2 * pi * real m"
    unfolding normalizeAngle_def using m n by simp
  then have "normalizeAngle a = a + 2 * pi * real_of_int (int m - int n)"
    by (simp add: algebra_simps)
  then show ?thesis by blast
qed

lemma minimal_in_class:
  fixes r :: real
  assumes "\<bar>r\<bar> \<le> pi"
  shows "\<bar>r\<bar> \<le> \<bar>r + 2 * pi * real_of_int k\<bar>"
proof (cases "k = 0")
  case True
  then show ?thesis by simp
next
  case False
  then have "1 \<le> \<bar>k\<bar>"
    by simp
  then have "real_of_int 1 \<le> real_of_int \<bar>k\<bar>"
    by (simp only: of_int_le_iff)
  then have "1 \<le> \<bar>real_of_int k\<bar>"
    by simp
  then have "2 * pi * 1 \<le> 2 * pi * \<bar>real_of_int k\<bar>"
    using pi_gt_zero by (intro mult_left_mono) auto
  then have "2 * pi \<le> \<bar>2 * pi * real_of_int k\<bar>"
    using pi_gt_zero by (simp add: abs_mult)
  then show ?thesis
    using assms by linarith
qed

text \<open>
  Claim C9, as the program has it. For all angles \<open>a\<close> and \<open>b\<close>, \<open>angleDifference(a, b)\<close>
  lies in the closed interval \<open>[-\<pi>, \<pi>]\<close>, is congruent to \<open>b - a\<close> modulo \<open>2\<pi>\<close>, and no
  angle congruent to \<open>b - a\<close> has a smaller absolute value.
\<close>

theorem angleDifference_closed_interval:
  "- pi \<le> angleDifference a b \<and> angleDifference a b \<le> pi \<and>
   (\<exists>k::int. angleDifference a b = b - a + 2 * pi * real_of_int k) \<and>
   (\<forall>k::int. \<bar>angleDifference a b\<bar> \<le> \<bar>b - a + 2 * pi * real_of_int k\<bar>)"
proof -
  have range: "- pi \<le> angleDifference a b \<and> angleDifference a b \<le> pi"
    unfolding angleDifference_def by (rule normalizeAngle_range)
  obtain k0 :: int where k0: "angleDifference a b = b - a + 2 * pi * real_of_int k0"
    unfolding angleDifference_def using normalizeAngle_cong by blast
  have "\<bar>angleDifference a b\<bar> \<le> \<bar>b - a + 2 * pi * real_of_int k\<bar>" for k :: int
  proof -
    have "\<bar>angleDifference a b\<bar> \<le> \<bar>angleDifference a b + 2 * pi * real_of_int (k - k0)\<bar>"
      using range by (intro minimal_in_class) auto
    also have "angleDifference a b + 2 * pi * real_of_int (k - k0) = b - a + 2 * pi * real_of_int k"
      by (simp add: k0 algebra_simps)
    finally show ?thesis .
  qed
  with range k0 show ?thesis by blast
qed

theorem angleDifference_closed_interval_witness:
  "- pi \<le> angleDifference 0 (3 * pi) \<and> angleDifference 0 (3 * pi) \<le> pi"
  using angleDifference_closed_interval [of 0 "3 * pi"] by simp

text \<open>The lower end of the interval is attained: from \<open>a = \<pi>\<close> to \<open>b = 0\<close> the difference
  is \<open>-\<pi>\<close>, which the second loop (\<open>angle < -Math.PI\<close>) leaves as it is. So the result is
  not always in the half-open interval \<open>(-\<pi>, \<pi>]\<close>.\<close>

theorem angleDifference_minus_pi:
  "angleDifference pi 0 = - pi \<and> \<not> (- pi < angleDifference pi 0 \<and> angleDifference pi 0 \<le> pi)"
proof -
  have "angleDifference pi 0 = - pi"
    by (simp add: angleDifference_def normalizeAngle_def normalizeAngle_down_id normalizeAngle_up_id)
  then show ?thesis by simp
qed

section \<open>Collision resolution\<close>

text \<open>
  Claim C7. For every grid, current position \<open>a\<close>, desired position \<open>b\<close> and radius \<open>r\<close>,
  \<open>resolveCollision\<close> returns \<open>b\<close> if the four corners of the square of radius \<open>r\<close> around
  \<open>b\<close> are walkable; otherwise the horizontal-only position (desired x, current y) if its
  four corners are walkable; otherwise the vertical-only position (current x, desired y) if
  its four corners are walkable; otherwise \<open>a\<close>.
\<close>

theorem resolveCollision_order:
  "resolveCollision g a b r =
     (let free = (\<lambda>p. isWalkable g (fst p - r) (snd p - r) \<and> isWalkable g (fst p + r) (snd p - r) \<and>
                       isWalkable g (fst p - r) (snd p + r) \<and> isWalkable g (fst p + r) (snd p + r))
      in if free b then b
         else if free (fst b, snd a) then (fst b, snd a)
         else if free (fst a, snd b) then (fst a, snd b)
         else a)"
  by (simp add: resolveCollision_def canMoveTo_def Let_def)

text \<open>In the example room, a step up and to the right from (1.5, 1.5) runs into the upper
  wall and slides to the right.\<close>

theorem resolveCollision_order_witness:
  "resolveCollision demoGrid (1.5, 1.5) (1.8, 1.1) 0.3 = (1.8, 1.5)"
  using resolveCollision_order [of demoGrid "(1.5, 1.5)" "(1.8, 1.1)" "0.3"]
  by (simp add: isWalkable_def inBounds_def tileAt_def demoGrid_def Let_def)

section \<open>Frozen states\<close>

lemma updateGame_skipped:
  "isPaused s \<or> isGameOver s \<or> isWin s \<Longrightarrow> updateGame s input dt = Inr (s, input)"
  by (simp add: updateGame_def)

lemma runFrames_skipped:
  "isPaused s \<or> isGameOver s \<or> isWin s \<Longrightarrow> runFrames s frames = Inr s"
  by (induction frames) (simp_all add: updateGame_skipped)

text \<open>
  Claim C4. In a state in which \<open>isPaused\<close>, \<open>isGameOver\<close> or \<open>isWin\<close> is true,
  \<open>updateGame\<close> returns the state itself (and leaves the input record alone) for every input
  and every elapsed time; so any number of further frames returns the same state.
\<close>

theorem updateGame_frozen:
  assumes "isPaused s \<or> isGameOver s \<or> isWin s"
  shows "updateGame s input dt = Inr (s, input) \<and> runFrames s frames = Inr s"
  using assms by (simp add: updateGame_skipped runFrames_skipped)

theorem updateGame_frozen_witness:
  "isGameOver (demoState\<lparr>isGameOver := True\<rparr>) \<and>
   updateGame (demoState\<lparr>isGameOver := True\<rparr>) (noInput\<lparr>i_right := True\<rparr>) 0.1
     = Inr (demoState\<lparr>isGameOver := True\<rparr>, noInput\<lparr>i_right := True\<rparr>) \<and>
   runFrames (demoState\<lparr>isGameOver := True\<rparr>) [(noInput, 0.1), (noInput\<lparr>i_shoot := True\<rparr>, 0.05)]
     = Inr (demoState\<lparr>isGameOver := True\<rparr>)"
  using updateGame_frozen [of "demoState\<lparr>isGameOver := True\<rparr>" "noInput\<lparr>i_right := True\<rparr>" "0.1"
          "[(noInput, 0.1), (noInput\<lparr>i_shoot := True\<rparr>, 0.05)]"]
  by simp

section \<open>Perception\<close>

lemma distance_horizontal [simp]: "distance (x1, y) (x2, y) = \<bar>x2 - x1\<bar>"
  by (simp add: distance_def)

lemma distance_vertical [simp]: "distance (x, y1) (x, y2) = \<bar>y2 - y1\<bar>"
  by (simp add: distance_def)

lemma normalizeAngle_id: "- pi \<le> a \<Longrightarrow> a \<le> pi \<Longrightarrow> normalizeAngle a = a"
  by (simp add: normalizeAngle_def normalizeAngle_down_id normalizeAngle_up_id)

lemma normalize_horizontal [simp]: "normalize (x, 0) = (sgn x, 0)"
  by (simp add: normalize_def sgn_real_def)

lemma hasLineOfSight_returns: "\<exists>v. hasLineOfSight g a b = Inr v"
proof -
  obtain points where "getLinePoints \<lfloor>fst a\<rfloor> \<lfloor>snd a\<rfloor> \<lfloor>fst b\<rfloor> \<lfloor>snd b\<rfloor> = Some points"
    using getLinePoints_returns by blast
  then show ?thesis
    by (simp add: hasLineOfSight_def)
qed

lemma hasLineOfSight_iff:
  "hasLineOfSight g a b = Inr True \<longleftrightarrow>
     (\<exists>points. getLinePoints \<lfloor>fst a\<rfloor> \<lfloor>snd a\<rfloor> \<lfloor>fst b\<rfloor> \<lfloor>snd b\<rfloor> = Some points \<and>
        (\<forall>i. 1 \<le> i \<and> i < length points - 1 \<longrightarrow> \<not> blocksSight g (points ! i)))"
  by (auto simp: hasLineOfSight_def list_ex_iff split: option.splits)

lemma inVisionCone_returns: "\<exists>v. inVisionCone enemy pl g cfg = Inr v"
  using hasLineOfSight_returns [of g "e_pos enemy" "p_pos pl"]
  by (auto simp: inVisionCone_def Let_def)

lemma inVisionCone_cooldown [simp]:
  "inVisionCone (enemy\<lparr>e_shootCooldown := c\<rparr>) pl g cfg = inVisionCone enemy pl g cfg"
  by (simp add: inVisionCone_def Let_def)

lemma inVisionCone_iff:
  "inVisionCone enemy pl g cfg = Inr True \<longleftrightarrow>
     distance (e_pos enemy) (p_pos pl)
         \<le> (if p_isSneaking pl then visionRange cfg * 0.6 else visionRange cfg) \<and>
     \<bar>angleDifference (e_angle enemy) (angleBetween (e_pos enemy) (p_pos pl))\<bar>
         \<le> degToRad (visionAngle cfg / 2) \<and>
     hasLineOfSight g (e_pos enemy) (p_pos pl) = Inr True"
  by (auto simp: inVisionCone_def Let_def)

lemma updateEnemy_detected:
  assumes "\<not> e_isDead enemy" "updateEnemy enemy pl g cfg dt markers = Inr (final, result)"
  shows "inVisionCone enemy pl g cfg = Inr (detected result)"
  using assms
  by (auto simp: updateEnemy_def alertPhase_def Let_def split: sum.splits)

lemma canHear_cooldown [simp]:
  "canHear (enemy\<lparr>e_shootCooldown := c\<rparr>) pl cfg = canHear enemy pl cfg"
  by (simp add: canHear_def Let_def)

lemma closestNoise_cooldown [simp]:
  "closestNoise (enemy\<lparr>e_shootCooldown := c\<rparr>) cfg markers = closestNoise enemy cfg markers"
  by (simp add: closestNoise_def)

text \<open>\<open>Math.atan2(y, x)\<close> is the polar angle of \<open>(x, y)\<close>.\<close>

lemma sqrt_one_plus_slope:
  fixes x y :: real
  assumes "x \<noteq> 0"
  shows "sqrt (1 + (y / x)\<^sup>2) = sqrt (x\<^sup>2 + y\<^sup>2) / \<bar>x\<bar>"
proof -
  have "1 + (y / x)\<^sup>2 = (x\<^sup>2 + y\<^sup>2) / x\<^sup>2"
    using assms by (simp add: field_simps power2_eq_square)
  then show ?thesis
    by (simp add: real_sqrt_divide)
qed

lemma atan2_polar:
  "- pi < atan2 y x \<and> atan2 y x \<le> pi \<and>
   x = sqrt (x\<^sup>2 + y\<^sup>2) * cos (atan2 y x) \<and> y = sqrt (x\<^sup>2 + y\<^sup>2) * sin (atan2 y x)"
proof -
  define r where "r = sqrt (x\<^sup>2 + y\<^sup>2)"
  consider (right) "0 < x" | (left) "x < 0" | (axis) "x = 0"
    by linarith
  then have "- pi < atan2 y x \<and> atan2 y x \<le> pi \<and> x = r * cos (atan2 y x) \<and> y = r * sin (atan2 y x)"
  proof cases
    case right
    have r: "0 < r"
      unfolding r_def using right by (simp add: sum_power2_gt_zero_iff)
    have s: "sqrt (1 + (y / x)\<^sup>2) = r / x"
      using sqrt_one_plus_slope [of x y] right by (simp add: r_def)
    have "cos (arctan (y / x)) = x / r" "sin (arctan (y / x)) = y / r"
      using right r by (simp_all add: cos_arctan sin_arctan s)
    moreover have "- pi < arctan (y / x)" "arctan (y / x) \<le> pi"
      using arctan_lbound [of "y / x"] arctan_ubound [of "y / x"] pi_gt_zero by linarith+
    ultimately show ?thesis
      using right r by (simp add: atan2_def)
  next
    case left
    have r: "0 < r"
      unfolding r_def using left by (simp add: sum_power2_gt_zero_iff)
    have s: "sqrt (1 + (y / x)\<^sup>2) = r / (- x)"
      using sqrt_one_plus_slope [of x y] left by (simp add: r_def)
    have cs: "cos (arctan (y / x)) = - x / r" "sin (arctan (y / x)) = - y / r"
      using left r by (simp_all add: cos_arctan sin_arctan s)
    show ?thesis
    proof (cases "0 \<le> y")
      case True
      then have "y / x \<le> 0"
        using left by (simp add: divide_nonneg_neg)
      then have "arctan (y / x) \<le> 0"
        using arctan_le_zero_iff by blast
      moreover have "- (pi / 2) < arctan (y / x)"
        by (rule arctan_lbound)
      ultimately have "- pi < arctan (y / x) + pi" "arctan (y / x) + pi \<le> pi"
        using pi_gt_zero by linarith+
      then show ?thesis
        using left True cs r by (simp add: atan2_def)
    next
      case False
      then have "0 < y / x"
        using left by (simp add: divide_neg_neg)
      then have "0 < arctan (y / x)"
        using zero_less_arctan_iff by blast
      moreover have "arctan (y / x) < pi / 2"
        by (rule arctan_ubound)
      ultimately have "- pi < arctan (y / x) - pi" "arctan (y / x) - pi \<le> pi"
        using pi_gt_zero by linarith+
      then show ?thesis
        using left False cs r by (simp add: atan2_def cos_diff sin_diff)
    qed
  next
    case axis
    consider (up) "0 < y" | (down) "y < 0" | (origin) "y = 0"
      by linarith
    then show ?thesis
    proof cases
      case up
      then have eq: "atan2 y x = pi / 2" "r = y"
        using axis by (simp_all add: atan2_def r_def)
      have "- pi < pi / 2" "pi / 2 \<le> pi"
        using pi_gt_zero by linarith+
      then show ?thesis
        unfolding eq using axis by simp
    next
      case down
      then have eq: "atan2 y x = - (pi / 2)" "r = - y"
        using axis by (simp_all add: atan2_def r_def)
      have "- pi < - (pi / 2)" "- (pi / 2) \<le> pi"
        using pi_gt_zero by linarith+
      then show ?thesis
        unfolding eq using axis by simp
    next
      case origin
      then have eq: "atan2 y x = 0" "r = 0"
        using axis by (simp_all add: atan2_def r_def)
      show ?thesis
        unfolding eq using axis origin pi_gt_zero by simp
    qed
  qed
  then show ?thesis
    unfolding r_def .
qed

text \<open>A cell blocks sight when it is inside the grid and is a wall or cover; sight is free
  when no cell strictly between the first and the last cell of the traced line does.\<close>

lemma blocksSight_iff:
  "blocksSight g c \<longleftrightarrow>
     0 \<le> snd c \<and> snd c < int (length g) \<and> 0 \<le> fst c \<and> fst c < int (length (g ! 0)) \<and>
     fst c < int (length (g ! nat (snd c))) \<and>
     (g ! nat (snd c) ! nat (fst c) = WALL \<or> g ! nat (snd c) ! nat (fst c) = COVER)"
  by (auto simp: blocksSight_def inBounds_def tileAt_def nat_less_iff)

lemma hasLineOfSight_cells:
  assumes "getLinePoints \<lfloor>fst a\<rfloor> \<lfloor>snd a\<rfloor> \<lfloor>fst b\<rfloor> \<lfloor>snd b\<rfloor> = Some cells"
  shows "hasLineOfSight g a b
     = Inr (\<forall>n. 1 \<le> n \<and> n + 1 < length cells \<longrightarrow> \<not> blocksSight g (cells ! n))"
  using assms by (auto simp: hasLineOfSight_def list_ex_iff)


text \<open>
  Claim C2. The vision test of \<open>updateEnemy\<close> always yields a value \<open>v\<close>. Let \<open>d\<close> be the
  Euclidean distance from the enemy to the player, \<open>\<theta>\<close> the heading to the player (the
  polar angle in \<open>(-\<pi>, \<pi>]\<close> of the player's offset from the enemy, 0 when they coincide),
  \<open>\<delta>\<close> the difference between \<open>\<theta>\<close> and the enemy's facing brought into \<open>[-\<pi>, \<pi>]\<close> by a
  multiple of \<open>2\<pi>\<close>, and \<open>cells\<close> the traced line between their tiles: it starts on the
  enemy's tile, ends on the player's tile, has one cell per step along the longer axis,
  and each cell is within half a cell of the straight segment. Then \<open>v\<close> holds if and only
  if \<open>d\<close> is at most the effective vision range (the configured range times 0.6 when the
  player sneaks, the configured range otherwise), \<open>|\<delta>|\<close> is at most half the configured
  vision angle (in degrees, so \<open>visionAngle / 2 \<times> \<pi> / 180\<close>), and no cell strictly between
  the first and the last cell of the line is a wall or cover tile of the grid. With
  vision range 6 a sneaking player at distance 5 is not in the cone. For a live enemy \<open>v\<close>
  is the \<open>detected\<close> field of the result of \<open>updateEnemy\<close>.
\<close>

theorem vision_cone_test:
  fixes enemy :: Enemy and pl :: Player and g :: tilegrid and cfg :: GameConfig
    and dt :: real and markers :: "NoiseMarker list"
  defines "ex \<equiv> fst (e_pos enemy)" and "ey \<equiv> snd (e_pos enemy)"
    and "px \<equiv> fst (p_pos pl)" and "py \<equiv> snd (p_pos pl)"
  defines "d \<equiv> sqrt ((px - ex)\<^sup>2 + (py - ey)\<^sup>2)"
    and "X \<equiv> \<lfloor>px\<rfloor> - \<lfloor>ex\<rfloor>" and "Y \<equiv> \<lfloor>py\<rfloor> - \<lfloor>ey\<rfloor>"
  shows "\<exists>v \<theta> \<delta> cells.
     inVisionCone enemy pl g cfg = Inr v \<and>
     - pi < \<theta> \<and> \<theta> \<le> pi \<and> px - ex = d * cos \<theta> \<and> py - ey = d * sin \<theta> \<and> (d = 0 \<longrightarrow> \<theta> = 0) \<and>
     - pi \<le> \<delta> \<and> \<delta> \<le> pi \<and> (\<exists>k::int. \<delta> = \<theta> - e_angle enemy + 2 * pi * real_of_int k) \<and>
     length cells = nat (max \<bar>X\<bar> \<bar>Y\<bar>) + 1 \<and>
     hd cells = (\<lfloor>ex\<rfloor>, \<lfloor>ey\<rfloor>) \<and> last cells = (\<lfloor>px\<rfloor>, \<lfloor>py\<rfloor>) \<and>
     (\<forall>n < length cells.
        max \<bar>fst (cells ! n) - \<lfloor>ex\<rfloor>\<bar> \<bar>snd (cells ! n) - \<lfloor>ey\<rfloor>\<bar> = int n \<and>
        0 \<le> (fst (cells ! n) - \<lfloor>ex\<rfloor>) * X \<and>
        0 \<le> (snd (cells ! n) - \<lfloor>ey\<rfloor>) * Y \<and>
        2 * \<bar>(snd (cells ! n) - \<lfloor>ey\<rfloor>) * X - (fst (cells ! n) - \<lfloor>ex\<rfloor>) * Y\<bar> \<le> max \<bar>X\<bar> \<bar>Y\<bar>) \<and>
     (v \<longleftrightarrow>
        d \<le> (if p_isSneaking pl then visionRange cfg * 0.6 else visionRange cfg) \<and>
        \<bar>\<delta>\<bar> \<le> visionAngle cfg / 2 * pi / 180 \<and>
        (\<forall>n. 1 \<le> n \<and> n + 1 < length cells \<longrightarrow>
           \<not> (0 \<le> snd (cells ! n) \<and> snd (cells ! n) < int (length g) \<and>
              0 \<le> fst (cells ! n) \<and> fst (cells ! n) < int (length (g ! 0)) \<and>
              fst (cells ! n) < int (length (g ! nat (snd (cells ! n)))) \<and>
              (g ! nat (snd (cells ! n)) ! nat (fst (cells ! n)) = WALL \<or>
               g ! nat (snd (cells ! n)) ! nat (fst (cells ! n)) = COVER)))) \<and>
     (visionRange cfg = 6 \<and> p_isSneaking pl \<and> d = 5 \<longrightarrow> \<not> v) \<and>
     (\<forall>final result.
        \<not> e_isDead enemy \<and> updateEnemy enemy pl g cfg dt markers = Inr (final, result)
          \<longrightarrow> detected result = v)"
proof -
  define \<theta> where "\<theta> = atan2 (py - ey) (px - ex)"
  define \<delta> where "\<delta> = normalizeAngle (\<theta> - e_angle enemy)"
  have polar: "- pi < \<theta>" "\<theta> \<le> pi" "px - ex = d * cos \<theta>" "py - ey = d * sin \<theta>"
    using atan2_polar [of "py - ey" "px - ex"] by (simp_all add: \<theta>_def d_def)
  have origin: "d = 0 \<longrightarrow> \<theta> = 0"
    by (simp add: d_def \<theta>_def atan2_def sum_power2_eq_zero_iff)
  have range: "- pi \<le> \<delta>" "\<delta> \<le> pi"
    using normalizeAngle_range [of "\<theta> - e_angle enemy"] by (simp_all add: \<delta>_def)
  have cong: "\<exists>k::int. \<delta> = \<theta> - e_angle enemy + 2 * pi * real_of_int k"
    unfolding \<delta>_def by (rule normalizeAngle_cong)
  obtain cells where cells:
    "getLinePoints \<lfloor>ex\<rfloor> \<lfloor>ey\<rfloor> \<lfloor>px\<rfloor> \<lfloor>py\<rfloor> = Some cells"
    "length cells = nat (max \<bar>X\<bar> \<bar>Y\<bar>) + 1"
    "hd cells = (\<lfloor>ex\<rfloor>, \<lfloor>ey\<rfloor>)" "last cells = (\<lfloor>px\<rfloor>, \<lfloor>py\<rfloor>)"
    "\<forall>n < length cells.
        max \<bar>fst (cells ! n) - \<lfloor>ex\<rfloor>\<bar> \<bar>snd (cells ! n) - \<lfloor>ey\<rfloor>\<bar> = int n \<and>
        0 \<le> (fst (cells ! n) - \<lfloor>ex\<rfloor>) * X \<and>
        0 \<le> (snd (cells ! n) - \<lfloor>ey\<rfloor>) * Y \<and>
        2 * \<bar>(snd (cells ! n) - \<lfloor>ey\<rfloor>) * X - (fst (cells ! n) - \<lfloor>ex\<rfloor>) * Y\<bar> \<le> max \<bar>X\<bar> \<bar>Y\<bar>"
    using getLinePoints_cells [of "\<lfloor>ex\<rfloor>" "\<lfloor>ey\<rfloor>" "\<lfloor>px\<rfloor>" "\<lfloor>py\<rfloor>"] unfolding X_def Y_def by blast
  define clear where "clear \<longleftrightarrow>
        (\<forall>n. 1 \<le> n \<and> n + 1 < length cells \<longrightarrow>
           \<not> (0 \<le> snd (cells ! n) \<and> snd (cells ! n) < int (length g) \<and>
              0 \<le> fst (cells ! n) \<and> fst (cells ! n) < int (length (g ! 0)) \<and>
              fst (cells ! n) < int (length (g ! nat (snd (cells ! n)))) \<and>
              (g ! nat (snd (cells ! n)) ! nat (fst (cells ! n)) = WALL \<or>
               g ! nat (snd (cells ! n)) ! nat (fst (cells ! n)) = COVER)))"
  have sight: "hasLineOfSight g (e_pos enemy) (fst (p_pos pl), snd (p_pos pl)) = Inr clear"
    using hasLineOfSight_cells [of "e_pos enemy" "(fst (p_pos pl), snd (p_pos pl))" cells g] cells(1)
    by (simp add: clear_def blocksSight_iff ex_def ey_def px_def py_def)
  define v where "v \<longleftrightarrow>
        d \<le> (if p_isSneaking pl then visionRange cfg * 0.6 else visionRange cfg) \<and>
        \<bar>\<delta>\<bar> \<le> visionAngle cfg / 2 * pi / 180 \<and> clear"
  have dist: "distance (e_pos enemy) (fst (p_pos pl), snd (p_pos pl)) = d"
    by (simp add: distance_def d_def ex_def ey_def px_def py_def)
  have ang: "angleDifference (e_angle enemy) (angleBetween (e_pos enemy) (fst (p_pos pl), snd (p_pos pl))) = \<delta>"
    by (simp add: angleDifference_def angleBetween_def \<delta>_def \<theta>_def ex_def ey_def px_def py_def)
  have run: "inVisionCone enemy pl g cfg = Inr v"
    unfolding inVisionCone_def Let_def dist ang sight
    by (auto simp: v_def degToRad_def)
  have sneak: "visionRange cfg = 6 \<and> p_isSneaking pl \<and> d = 5 \<longrightarrow> \<not> v"
    by (simp add: v_def)
  have det: "\<forall>final result.
        \<not> e_isDead enemy \<and> updateEnemy enemy pl g cfg dt markers = Inr (final, result)
          \<longrightarrow> detected result = v"
    using updateEnemy_detected [of enemy pl g cfg dt markers] run by auto
  show ?thesis
  proof (rule exI [of _ v], rule exI [of _ \<theta>], rule exI [of _ \<delta>], rule exI [of _ cells],
      intro conjI)
    show "inVisionCone enemy pl g cfg = Inr v" by (rule run)
    show "- pi < \<theta>" "\<theta> \<le> pi" "px - ex = d * cos \<theta>" "py - ey = d * sin \<theta>" by (rule polar)+
    show "d = 0 \<longrightarrow> \<theta> = 0" by (rule origin)
    show "- pi \<le> \<delta>" "\<delta> \<le> pi" by (rule range)+
    show "\<exists>k::int. \<delta> = \<theta> - e_angle enemy + 2 * pi * real_of_int k" by (rule cong)
    show "length cells = nat (max \<bar>X\<bar> \<bar>Y\<bar>) + 1" by (rule cells(2))
    show "hd cells = (\<lfloor>ex\<rfloor>, \<lfloor>ey\<rfloor>)" "last cells = (\<lfloor>px\<rfloor>, \<lfloor>py\<rfloor>)" by (rule cells(3) cells(4))+
    show "\<forall>n < length cells.
        max \<bar>fst (cells ! n) - \<lfloor>ex\<rfloor>\<bar> \<bar>snd (cells ! n) - \<lfloor>ey\<rfloor>\<bar> = int n \<and>
        0 \<le> (fst (cells ! n) - \<lfloor>ex\<rfloor>) * X \<and>
        0 \<le> (snd (cells ! n) - \<lfloor>ey\<rfloor>) * Y \<and>
        2 * \<bar>(snd (cells ! n) - \<lfloor>ey\<rfloor>) * X - (fst (cells ! n) - \<lfloor>ex\<rfloor>) * Y\<bar> \<le> max \<bar>X\<bar> \<bar>Y\<bar>"
      by (rule cells(5))
    show "v \<longleftrightarrow>
        d \<le> (if p_isSneaking pl then visionRange cfg * 0.6 else visionRange cfg) \<and>
        \<bar>\<delta>\<bar> \<le> visionAngle cfg / 2 * pi / 180 \<and>
        (\<forall>n. 1 \<le> n \<and> n + 1 < length cells \<longrightarrow>
           \<not> (0 \<le> snd (cells ! n) \<and> snd (cells ! n) < int (length g) \<and>
              0 \<le> fst (cells ! n) \<and> fst (cells ! n) < int (length (g ! 0)) \<and>
              fst (cells ! n) < int (length (g ! nat (snd (cells ! n)))) \<and>
              (g ! nat (snd (cells ! n)) ! nat (fst (cells ! n)) = WALL \<or>
               g ! nat (snd (cells ! n)) ! nat (fst (cells ! n)) = COVER)))"
      unfolding v_def clear_def ..
    show "visionRange cfg = 6 \<and> p_isSneaking pl \<and> d = 5 \<longrightarrow> \<not> v" by (rule sneak)
    show "\<forall>final result.
        \<not> e_isDead enemy \<and> updateEnemy enemy pl g cfg dt markers = Inr (final, result)
          \<longrightarrow> detected result = v"
      by (rule det)
  qed
qed

lemmas vision_defs =
  inVisionCone_def demoGuard_def demoPlayer_def newEnemy_def initGame_def
  DEFAULT_CONFIG_def angleBetween_def atan2_def angleDifference_def normalizeAngle_id
  degToRad_def hasLineOfSight_def getLinePoints_def getLinePoints_loop.simps
  blocksSight_def inBounds_def tileAt_def demoGrid_def upt_rec

text \<open>A guard in the bottom row faces east. It sees a walking player five tiles down the
  row, and does not see the same player sneaking. A wall placed on the row between them
  hides the player: by the theorem, the fourth cell of the line is the wall. In the
  middle row the cover tile between guard and player hides the player; in the top row,
  at the same distance, nothing does. On the diagonal through the cover tile the player is
  hidden, and seen once the cover is gone. A player behind the guard is not seen.\<close>

theorem vision_cone_test_witness:
  "inVisionCone demoGuard (demoPlayer (6.5, 3.5)) demoGrid (DEFAULT_CONFIG 0) = Inr True \<and>
   inVisionCone demoGuard ((demoPlayer (6.5, 3.5))\<lparr>p_isSneaking := True\<rparr>) demoGrid (DEFAULT_CONFIG 0)
     = Inr False \<and>
   inVisionCone demoGuard (demoPlayer (6.5, 3.5)) walledGrid (DEFAULT_CONFIG 0) = Inr False \<and>
   inVisionCone (demoGuard\<lparr>e_pos := (1.5, 2.5)\<rparr>) (demoPlayer (3.5, 2.5)) demoGrid (DEFAULT_CONFIG 0)
     = Inr False \<and>
   inVisionCone (demoGuard\<lparr>e_pos := (1.5, 1.5)\<rparr>) (demoPlayer (3.5, 1.5)) demoGrid (DEFAULT_CONFIG 0)
     = Inr True \<and>
   inVisionCone (demoGuard\<lparr>e_pos := (1.5, 1.5)\<rparr>) (demoPlayer (3.5, 3.5)) demoGrid (DEFAULT_CONFIG 0)
     = Inr False \<and>
   inVisionCone (demoGuard\<lparr>e_pos := (1.5, 1.5)\<rparr>) (demoPlayer (3.5, 3.5)) openGrid (DEFAULT_CONFIG 0)
     = Inr True \<and>
   inVisionCone (demoGuard\<lparr>e_pos := (3.5, 3.5)\<rparr>) (demoPlayer (1.5, 3.5)) demoGrid (DEFAULT_CONFIG 0)
     = Inr False"
proof -
  let ?cfg = "DEFAULT_CONFIG 0"
  let ?walker = "demoPlayer (6.5, 3.5)"
  let ?sneaker = "(demoPlayer (6.5, 3.5))\<lparr>p_isSneaking := True\<rparr>"
  have ahead: "inVisionCone demoGuard ?walker demoGrid ?cfg = Inr True"
    by (simp add: vision_defs)
  have sneaking: "inVisionCone demoGuard ?sneaker demoGrid ?cfg = Inr False"
  proof -
    from vision_cone_test [of demoGuard ?sneaker demoGrid ?cfg 0 "[]"]
    obtain v where
      "inVisionCone demoGuard ?sneaker demoGrid ?cfg = Inr v"
      "visionRange ?cfg = 6 \<and> p_isSneaking ?sneaker \<and>
       sqrt ((fst (p_pos ?sneaker) - fst (e_pos demoGuard))\<^sup>2 +
             (snd (p_pos ?sneaker) - snd (e_pos demoGuard))\<^sup>2) = 5 \<longrightarrow> \<not> v"
      by blast
    then show ?thesis
      by (simp add: demoGuard_def demoPlayer_def newEnemy_def initGame_def DEFAULT_CONFIG_def)
  qed
  have walled: "inVisionCone demoGuard ?walker walledGrid ?cfg = Inr False"
  proof -
    have pos: "e_pos demoGuard = (1.5, 3.5)" "p_pos ?walker = (6.5, 3.5)"
      by (simp_all add: demoGuard_def demoPlayer_def newEnemy_def initGame_def)
    have tiles: "\<lfloor>1.5 :: real\<rfloor> = 1" "\<lfloor>3.5 :: real\<rfloor> = 3" "\<lfloor>6.5 :: real\<rfloor> = 6"
      by simp_all
    from vision_cone_test [of demoGuard ?walker walledGrid ?cfg 0 "[]",
        unfolded pos fst_conv snd_conv tiles]
    obtain v cells where
      run: "inVisionCone demoGuard ?walker walledGrid ?cfg = Inr v" and
      len: "length cells = nat (max \<bar>6 - 1\<bar> \<bar>3 - 3\<bar>) + 1" and
      cell: "\<forall>n < length cells.
        max \<bar>fst (cells ! n) - 1\<bar> \<bar>snd (cells ! n) - 3\<bar> = int n \<and>
        0 \<le> (fst (cells ! n) - 1) * (6 - 1) \<and>
        0 \<le> (snd (cells ! n) - 3) * (3 - 3) \<and>
        2 * \<bar>(snd (cells ! n) - 3) * (6 - 1) - (fst (cells ! n) - 1) * (3 - 3)\<bar>
          \<le> max \<bar>6 - 1\<bar> \<bar>3 - 3\<bar>" and
      sight: "v \<longrightarrow>
        (\<forall>n. 1 \<le> n \<and> n + 1 < length cells \<longrightarrow>
           \<not> (0 \<le> snd (cells ! n) \<and> snd (cells ! n) < int (length walledGrid) \<and>
              0 \<le> fst (cells ! n) \<and> fst (cells ! n) < int (length (walledGrid ! 0)) \<and>
              fst (cells ! n) < int (length (walledGrid ! nat (snd (cells ! n)))) \<and>
              (walledGrid ! nat (snd (cells ! n)) ! nat (fst (cells ! n)) = WALL \<or>
               walledGrid ! nat (snd (cells ! n)) ! nat (fst (cells ! n)) = COVER)))"
      by blast
    have six: "length cells = 6"
      using len by simp
    obtain x y where xy: "cells ! 3 = (x, y)"
      by (cases "cells ! 3")
    have "3 < length cells"
      using six by simp
    note third = cell [rule_format, OF this, unfolded xy fst_conv snd_conv]
    have a: "max \<bar>x - 1\<bar> \<bar>y - 3\<bar> = int 3"
      using third by blast
    have b: "0 \<le> (x - 1) * (6 - 1)"
      using third by blast
    have c: "2 * \<bar>(y - 3) * (6 - 1) - (x - 1) * (3 - 3)\<bar> \<le> max \<bar>6 - 1\<bar> \<bar>3 - 3\<bar>"
      using third by blast
    from c have "2 * \<bar>(y - 3) * 5\<bar> \<le> 5"
      by simp
    then have y: "y = 3"
      by arith
    from b have "1 \<le> x"
      by simp
    moreover from a have "max \<bar>x - 1\<bar> \<bar>y - 3\<bar> = 3"
      by simp
    ultimately have "x = 4"
      using y by arith
    with y have third: "cells ! 3 = (4, 3)"
      by (simp add: xy)
    have inside: "1 \<le> (3 :: nat) \<and> 3 + 1 < length cells"
      using six by simp
    have solid: "0 \<le> snd (cells ! 3) \<and> snd (cells ! 3) < int (length walledGrid) \<and>
              0 \<le> fst (cells ! 3) \<and> fst (cells ! 3) < int (length (walledGrid ! 0)) \<and>
              fst (cells ! 3) < int (length (walledGrid ! nat (snd (cells ! 3)))) \<and>
              (walledGrid ! nat (snd (cells ! 3)) ! nat (fst (cells ! 3)) = WALL \<or>
               walledGrid ! nat (snd (cells ! 3)) ! nat (fst (cells ! 3)) = COVER)"
      unfolding third by (simp add: walledGrid_def demoGrid_def)
    from sight inside solid have "\<not> v"
      by blast
    with run show ?thesis by simp
  qed
  have cover: "inVisionCone (demoGuard\<lparr>e_pos := (1.5, 2.5)\<rparr>) (demoPlayer (3.5, 2.5)) demoGrid ?cfg
     = Inr False"
    by (simp add: vision_defs)
  have free: "inVisionCone (demoGuard\<lparr>e_pos := (1.5, 1.5)\<rparr>) (demoPlayer (3.5, 1.5)) demoGrid ?cfg
     = Inr True"
    by (simp add: vision_defs)
  have root: "distance (3 / 2, 3 / 2) (7 / 2, 7 / 2) \<le> 6"
  proof -
    have "distance (3 / 2, 3 / 2) (7 / 2, 7 / 2) = sqrt 8"
      by (simp add: distance_def power2_eq_square)
    moreover have "sqrt 8 \<le> 6"
      by (rule real_le_lsqrt) simp_all
    ultimately show ?thesis by simp
  qed
  have quarter: "normalizeAngle (arctan 1) = pi / 4"
    by (simp add: arctan_one normalizeAngle_id)
  have diagonal: "inVisionCone (demoGuard\<lparr>e_pos := (1.5, 1.5)\<rparr>) (demoPlayer (3.5, 3.5)) demoGrid ?cfg
     = Inr False"
    using root by (simp add: vision_defs quarter)
  have cleared: "inVisionCone (demoGuard\<lparr>e_pos := (1.5, 1.5)\<rparr>) (demoPlayer (3.5, 3.5)) openGrid ?cfg
     = Inr True"
    using root by (simp add: vision_defs quarter openGrid_def)
  have behind: "inVisionCone (demoGuard\<lparr>e_pos := (3.5, 3.5)\<rparr>) (demoPlayer (1.5, 3.5)) demoGrid ?cfg
     = Inr False"
    by (simp add: vision_defs)
  from ahead sneaking walled cover free diagonal cleared behind show ?thesis
    by blast
qed

section \<open>The alert update\<close>

lemma closestNoise_loop_Some:
  "(closestNoise_loop ep r ms (c, Some d) = (c, Some d) \<and>
      (\<forall>m \<in> set ms. distance ep (n_pos m) \<le> r \<longrightarrow> d \<le> distance ep (n_pos m)))
   \<or> (\<exists>n \<in> set ms. distance ep (n_pos n) \<le> r \<and>
         closestNoise_loop ep r ms (c, Some d) = (Some (n_pos n), Some (distance ep (n_pos n))) \<and>
         distance ep (n_pos n) < d \<and>
         (\<forall>m \<in> set ms. distance ep (n_pos m) \<le> r \<longrightarrow> distance ep (n_pos n) \<le> distance ep (n_pos m)))"
proof (induction ms arbitrary: c d)
  case Nil
  then show ?case by simp
next
  case (Cons a ms)
  show ?case
  proof (cases "distance ep (n_pos a) \<le> r \<and> distance ep (n_pos a) < d")
    case True
    from Cons.IH [of "Some (n_pos a)" "distance ep (n_pos a)"] show ?thesis
    proof
      assume "closestNoise_loop ep r ms (Some (n_pos a), Some (distance ep (n_pos a)))
                = (Some (n_pos a), Some (distance ep (n_pos a))) \<and>
              (\<forall>m \<in> set ms. distance ep (n_pos m) \<le> r \<longrightarrow> distance ep (n_pos a) \<le> distance ep (n_pos m))"
      with True show ?thesis
        by (intro disjI2 bexI [of _ a]) (auto simp: Let_def)
    next
      assume "\<exists>n \<in> set ms. distance ep (n_pos n) \<le> r \<and>
         closestNoise_loop ep r ms (Some (n_pos a), Some (distance ep (n_pos a)))
           = (Some (n_pos n), Some (distance ep (n_pos n))) \<and>
         distance ep (n_pos n) < distance ep (n_pos a) \<and>
         (\<forall>m \<in> set ms. distance ep (n_pos m) \<le> r \<longrightarrow> distance ep (n_pos n) \<le> distance ep (n_pos m))"
      then obtain n where n: "n \<in> set ms" "distance ep (n_pos n) \<le> r"
         "closestNoise_loop ep r ms (Some (n_pos a), Some (distance ep (n_pos a)))
           = (Some (n_pos n), Some (distance ep (n_pos n)))"
         "distance ep (n_pos n) < distance ep (n_pos a)"
         "\<forall>m \<in> set ms. distance ep (n_pos m) \<le> r \<longrightarrow> distance ep (n_pos n) \<le> distance ep (n_pos m)"
        by blast
      with True show ?thesis
        by (intro disjI2 bexI [of _ n]) (auto simp: Let_def)
    qed
  next
    case False
    from Cons.IH [of c d] show ?thesis
    proof
      assume "closestNoise_loop ep r ms (c, Some d) = (c, Some d) \<and>
              (\<forall>m \<in> set ms. distance ep (n_pos m) \<le> r \<longrightarrow> d \<le> distance ep (n_pos m))"
      with False show ?thesis
        by (intro disjI1) (auto simp: Let_def)
    next
      assume "\<exists>n \<in> set ms. distance ep (n_pos n) \<le> r \<and>
         closestNoise_loop ep r ms (c, Some d) = (Some (n_pos n), Some (distance ep (n_pos n))) \<and>
         distance ep (n_pos n) < d \<and>
         (\<forall>m \<in> set ms. distance ep (n_pos m) \<le> r \<longrightarrow> distance ep (n_pos n) \<le> distance ep (n_pos m))"
      then obtain n where n: "n \<in> set ms" "distance ep (n_pos n) \<le> r"
         "closestNoise_loop ep r ms (c, Some d) = (Some (n_pos n), Some (distance ep (n_pos n)))"
         "distance ep (n_pos n) < d"
         "\<forall>m \<in> set ms. distance ep (n_pos m) \<le> r \<longrightarrow> distance ep (n_pos n) \<le> distance ep (n_pos m)"
        by blast
      with False show ?thesis
        by (intro disjI2 bexI [of _ n]) (auto simp: Let_def)
    qed
  qed
qed

lemma closestNoise_loop_None:
  "(if \<exists>m \<in> set ms. distance ep (n_pos m) \<le> r
    then \<exists>n \<in> set ms. distance ep (n_pos n) \<le> r \<and>
           fst (closestNoise_loop ep r ms (None, None)) = Some (n_pos n) \<and>
           (\<forall>m \<in> set ms. distance ep (n_pos m) \<le> r \<longrightarrow> distance ep (n_pos n) \<le> distance ep (n_pos m))
    else fst (closestNoise_loop ep r ms (None, None)) = None)"
proof (induction ms)
  case Nil
  then show ?case by simp
next
  case (Cons a ms)
  show ?case
  proof (cases "distance ep (n_pos a) \<le> r")
    case True
    from closestNoise_loop_Some [of ep r ms "Some (n_pos a)" "distance ep (n_pos a)"]
    show ?thesis
    proof
      assume "closestNoise_loop ep r ms (Some (n_pos a), Some (distance ep (n_pos a)))
                = (Some (n_pos a), Some (distance ep (n_pos a))) \<and>
              (\<forall>m \<in> set ms. distance ep (n_pos m) \<le> r \<longrightarrow> distance ep (n_pos a) \<le> distance ep (n_pos m))"
      with True have "distance ep (n_pos a) \<le> r \<and>
           fst (closestNoise_loop ep r (a # ms) (None, None)) = Some (n_pos a) \<and>
           (\<forall>m \<in> set (a # ms). distance ep (n_pos m) \<le> r \<longrightarrow> distance ep (n_pos a) \<le> distance ep (n_pos m))"
        by (auto simp: Let_def)
      then have "\<exists>n \<in> set (a # ms). distance ep (n_pos n) \<le> r \<and>
           fst (closestNoise_loop ep r (a # ms) (None, None)) = Some (n_pos n) \<and>
           (\<forall>m \<in> set (a # ms). distance ep (n_pos m) \<le> r \<longrightarrow> distance ep (n_pos n) \<le> distance ep (n_pos m))"
        by (intro bexI [of _ a]) auto
      with True show ?thesis by auto
    next
      assume "\<exists>n \<in> set ms. distance ep (n_pos n) \<le> r \<and>
         closestNoise_loop ep r ms (Some (n_pos a), Some (distance ep (n_pos a)))
           = (Some (n_pos n), Some (distance ep (n_pos n))) \<and>
         distance ep (n_pos n) < distance ep (n_pos a) \<and>
         (\<forall>m \<in> set ms. distance ep (n_pos m) \<le> r \<longrightarrow> distance ep (n_pos n) \<le> distance ep (n_pos m))"
      then obtain n where n: "n \<in> set ms" "distance ep (n_pos n) \<le> r"
         "closestNoise_loop ep r ms (Some (n_pos a), Some (distance ep (n_pos a)))
           = (Some (n_pos n), Some (distance ep (n_pos n)))"
         "distance ep (n_pos n) < distance ep (n_pos a)"
         "\<forall>m \<in> set ms. distance ep (n_pos m) \<le> r \<longrightarrow> distance ep (n_pos n) \<le> distance ep (n_pos m)"
        by blast
      with True have "distance ep (n_pos n) \<le> r \<and>
           fst (closestNoise_loop ep r (a # ms) (None, None)) = Some (n_pos n) \<and>
           (\<forall>m \<in> set (a # ms). distance ep (n_pos m) \<le> r \<longrightarrow> distance ep (n_pos n) \<le> distance ep (n_pos m))"
        by (auto simp: Let_def)
      with n(1) have "\<exists>n \<in> set (a # ms). distance ep (n_pos n) \<le> r \<and>
           fst (closestNoise_loop ep r (a # ms) (None, None)) = Some (n_pos n) \<and>
           (\<forall>m \<in> set (a # ms). distance ep (n_pos m) \<le> r \<longrightarrow> distance ep (n_pos n) \<le> distance ep (n_pos m))"
        by (intro bexI [of _ n]) auto
      with True show ?thesis by auto
    qed
  next
    case False
    then have step: "closestNoise_loop ep r (a # ms) (None, None) = closestNoise_loop ep r ms (None, None)"
      by simp
    show ?thesis
    proof (cases "\<exists>m \<in> set ms. distance ep (n_pos m) \<le> r")
      case True
      with Cons.IH obtain n where n: "n \<in> set ms" "distance ep (n_pos n) \<le> r"
          "fst (closestNoise_loop ep r ms (None, None)) = Some (n_pos n)"
          "\<forall>m \<in> set ms. distance ep (n_pos m) \<le> r \<longrightarrow> distance ep (n_pos n) \<le> distance ep (n_pos m)"
        by auto
      then have "\<exists>n \<in> set (a # ms). distance ep (n_pos n) \<le> r \<and>
           fst (closestNoise_loop ep r (a # ms) (None, None)) = Some (n_pos n) \<and>
           (\<forall>m \<in> set (a # ms). distance ep (n_pos m) \<le> r \<longrightarrow> distance ep (n_pos n) \<le> distance ep (n_pos m))"
        using False step by (intro bexI [of _ n]) auto
      with True show ?thesis by auto
    next
      case nobody: False
      with Cons.IH have "fst (closestNoise_loop ep r ms (None, None)) = None"
        by auto
      with nobody False step show ?thesis by auto
    qed
  qed
qed

lemma closestNoise_None_iff:
  "closestNoise enemy cfg markers = None \<longleftrightarrow>
     \<not> (\<exists>m \<in> set markers. distance (e_pos enemy) (n_pos m) \<le> hearingRadius cfg)"
  using closestNoise_loop_None [of markers "e_pos enemy" "hearingRadius cfg"]
  by (auto simp: closestNoise_def split: if_splits)

lemma closestNoise_nearest:
  assumes "\<exists>m \<in> set markers. distance (e_pos enemy) (n_pos m) \<le> hearingRadius cfg"
  shows "\<exists>n \<in> set markers. distance (e_pos enemy) (n_pos n) \<le> hearingRadius cfg \<and>
           closestNoise enemy cfg markers = Some (n_pos n) \<and>
           (\<forall>m \<in> set markers. distance (e_pos enemy) (n_pos m) \<le> hearingRadius cfg
               \<longrightarrow> distance (e_pos enemy) (n_pos n) \<le> distance (e_pos enemy) (n_pos m))"
  using closestNoise_loop_None [of markers "e_pos enemy" "hearingRadius cfg"] assms
  by (simp add: closestNoise_def)

lemma moveToward_fields [simp]:
  "e_state (moveToward e t g dt) = e_state e"
  "e_speed (moveToward e t g dt) = e_speed e"
  "e_stateTimer (moveToward e t g dt) = e_stateTimer e"
  "e_alertLevel (moveToward e t g dt) = e_alertLevel e"
  "e_health (moveToward e t g dt) = e_health e"
  "e_isDead (moveToward e t g dt) = e_isDead e"
  "e_ammo (moveToward e t g dt) = e_ammo e"
  "e_shootCooldown (moveToward e t g dt) = e_shootCooldown e"
  "e_waypoints (moveToward e t g dt) = e_waypoints e"
  "e_currentWaypointIndex (moveToward e t g dt) = e_currentWaypointIndex e"
  "e_lastKnownPlayerPos (moveToward e t g dt) = e_lastKnownPlayerPos e"
  "e_investigateTarget (moveToward e t g dt) = e_investigateTarget e"
  by (simp_all add: moveToward_def Let_def)


lemma updateAlert_fields [simp]:
  "e_state (updateAlert e pl dt v h n) = e_state e"
  "e_speed (updateAlert e pl dt v h n) = e_speed e"
  "e_stateTimer (updateAlert e pl dt v h n) = e_stateTimer e"
  "e_pos (updateAlert e pl dt v h n) = e_pos e"
  "e_health (updateAlert e pl dt v h n) = e_health e"
  "e_isDead (updateAlert e pl dt v h n) = e_isDead e"
  "e_ammo (updateAlert e pl dt v h n) = e_ammo e"
  "e_shootCooldown (updateAlert e pl dt v h n) = e_shootCooldown e"
  "e_waypoints (updateAlert e pl dt v h n) = e_waypoints e"
  "e_currentWaypointIndex (updateAlert e pl dt v h n) = e_currentWaypointIndex e"
  by (simp_all add: updateAlert_def Let_def)


lemma updateAlert_cooldown:
  "updateAlert (enemy\<lparr>e_shootCooldown := c\<rparr>) pl dt v h n
     = (updateAlert enemy pl dt v h n)\<lparr>e_shootCooldown := c\<rparr>"
  by (simp add: updateAlert_def Let_def)

lemma alertPhase_eq:
  "inVisionCone enemy pl g cfg = Inr v \<Longrightarrow>
   alertPhase enemy pl g cfg dt markers
     = Inr ((updateAlert enemy pl dt v (canHear enemy pl cfg) (closestNoise enemy cfg markers))
              \<lparr>e_shootCooldown := max 0 (e_shootCooldown enemy - dt)\<rparr>, v)"
  by (simp add: alertPhase_def Let_def updateAlert_cooldown)

text \<open>
  Claim C1. The alert phase of \<open>updateEnemy\<close> returns an enemy \<open>alerted\<close> and the result
  \<open>v\<close> of the vision test, and exactly one branch of the alert update has run. If \<open>v\<close>
  holds, the alert level has grown by \<open>100 / (2 if the player sneaks, else 0.8) \<times> deltaTime\<close>
  and \<open>lastKnownPlayerPos\<close> is the player's position. Otherwise, if the hearing test passes
  or a noise marker lies within the hearing radius, the alert level has grown by
  \<open>30 \<times> deltaTime\<close> and the investigate target is the position of a nearest such marker if
  there is one, else the player's position. Otherwise the alert level has fallen by
  \<open>15 \<times> deltaTime\<close>, not below 0. In every case the result is capped at 100.
\<close>

theorem alert_update_cascade:
  "\<exists>alerted v.
     alertPhase enemy pl g cfg dt markers = Inr (alerted, v) \<and>
     inVisionCone enemy pl g cfg = Inr v \<and>
     (let heard = canHear enemy pl cfg;
          noisy = (\<exists>m \<in> set markers. distance (e_pos enemy) (n_pos m) \<le> hearingRadius cfg)
      in (v \<longrightarrow>
            e_alertLevel alerted
              = min 100 (e_alertLevel enemy + 100 / (if p_isSneaking pl then 2 else 0.8) * dt) \<and>
            e_lastKnownPlayerPos alerted = Some (p_pos pl) \<and>
            e_investigateTarget alerted = e_investigateTarget enemy) \<and>
         (\<not> v \<and> (heard \<or> noisy) \<longrightarrow>
            e_alertLevel alerted = min 100 (e_alertLevel enemy + 30 * dt) \<and>
            e_lastKnownPlayerPos alerted = e_lastKnownPlayerPos enemy \<and>
            (if noisy
             then \<exists>n \<in> set markers.
                    distance (e_pos enemy) (n_pos n) \<le> hearingRadius cfg \<and>
                    e_investigateTarget alerted = Some (n_pos n) \<and>
                    (\<forall>m \<in> set markers. distance (e_pos enemy) (n_pos m) \<le> hearingRadius cfg
                        \<longrightarrow> distance (e_pos enemy) (n_pos n) \<le> distance (e_pos enemy) (n_pos m))
             else e_investigateTarget alerted = Some (p_pos pl))) \<and>
         (\<not> v \<and> \<not> heard \<and> \<not> noisy \<longrightarrow>
            e_alertLevel alerted = min 100 (max 0 (e_alertLevel enemy - 15 * dt)) \<and>
            0 \<le> e_alertLevel alerted \<and>
            e_lastKnownPlayerPos alerted = e_lastKnownPlayerPos enemy \<and>
            e_investigateTarget alerted = e_investigateTarget enemy) \<and>
         e_alertLevel alerted \<le> 100)"
proof -
  obtain v where v: "inVisionCone enemy pl g cfg = Inr v"
    using inVisionCone_returns by blast
  define noisy where "noisy \<longleftrightarrow> (\<exists>m \<in> set markers. distance (e_pos enemy) (n_pos m) \<le> hearingRadius cfg)"
  define heard where "heard = canHear enemy pl cfg"
  define raw where "raw = updateAlert enemy pl dt v heard (closestNoise enemy cfg markers)"
  define alerted where "alerted = raw\<lparr>e_shootCooldown := max 0 (e_shootCooldown enemy - dt)\<rparr>"
  have none: "closestNoise enemy cfg markers = None \<longleftrightarrow> \<not> noisy"
    unfolding noisy_def by (rule closestNoise_None_iff)
  have run: "alertPhase enemy pl g cfg dt markers = Inr (alerted, v)"
    using alertPhase_eq [OF v] by (simp add: alerted_def raw_def heard_def)
  have same:
    "e_alertLevel alerted = e_alertLevel raw"
    "e_lastKnownPlayerPos alerted = e_lastKnownPlayerPos raw"
    "e_investigateTarget alerted = e_investigateTarget raw"
    by (simp_all add: alerted_def)
  have sight: "v \<longrightarrow>
            e_alertLevel alerted
              = min 100 (e_alertLevel enemy + 100 / (if p_isSneaking pl then 2 else 0.8) * dt) \<and>
            e_lastKnownPlayerPos alerted = Some (p_pos pl) \<and>
            e_investigateTarget alerted = e_investigateTarget enemy"
    unfolding same by (simp add: raw_def updateAlert_def Let_def)
  have nearest: "\<exists>n \<in> set markers.
                    distance (e_pos enemy) (n_pos n) \<le> hearingRadius cfg \<and>
                    e_investigateTarget alerted = Some (n_pos n) \<and>
                    (\<forall>m \<in> set markers. distance (e_pos enemy) (n_pos m) \<le> hearingRadius cfg
                        \<longrightarrow> distance (e_pos enemy) (n_pos n) \<le> distance (e_pos enemy) (n_pos m))"
    if "\<not> v" "noisy"
  proof -
    from that(2) obtain n where n: "n \<in> set markers"
        "distance (e_pos enemy) (n_pos n) \<le> hearingRadius cfg"
        "closestNoise enemy cfg markers = Some (n_pos n)"
        "\<forall>m \<in> set markers. distance (e_pos enemy) (n_pos m) \<le> hearingRadius cfg
               \<longrightarrow> distance (e_pos enemy) (n_pos n) \<le> distance (e_pos enemy) (n_pos m)"
      unfolding noisy_def using closestNoise_nearest [of markers enemy cfg] by blast
    have "e_investigateTarget alerted = Some (n_pos n)"
      unfolding same using that(1) n(3) by (simp add: raw_def updateAlert_def Let_def)
    with n show ?thesis by blast
  qed
  have fallback: "e_investigateTarget alerted = Some (p_pos pl)" if "\<not> v" "heard" "\<not> noisy"
    unfolding same using that none by (simp add: raw_def updateAlert_def Let_def)
  have target: "if noisy
             then \<exists>n \<in> set markers.
                    distance (e_pos enemy) (n_pos n) \<le> hearingRadius cfg \<and>
                    e_investigateTarget alerted = Some (n_pos n) \<and>
                    (\<forall>m \<in> set markers. distance (e_pos enemy) (n_pos m) \<le> hearingRadius cfg
                        \<longrightarrow> distance (e_pos enemy) (n_pos n) \<le> distance (e_pos enemy) (n_pos m))
             else e_investigateTarget alerted = Some (p_pos pl)"
    if "\<not> v" "heard \<or> noisy"
    using that nearest fallback by (cases noisy) simp_all
  have sound: "\<not> v \<and> (heard \<or> noisy) \<longrightarrow>
            e_alertLevel alerted = min 100 (e_alertLevel enemy + 30 * dt) \<and>
            e_lastKnownPlayerPos alerted = e_lastKnownPlayerPos enemy"
    unfolding same using none by (auto simp: raw_def updateAlert_def Let_def)
  have decay: "\<not> v \<and> \<not> heard \<and> \<not> noisy \<longrightarrow>
            e_alertLevel alerted = min 100 (max 0 (e_alertLevel enemy - 15 * dt)) \<and>
            0 \<le> e_alertLevel alerted \<and>
            e_lastKnownPlayerPos alerted = e_lastKnownPlayerPos enemy \<and>
            e_investigateTarget alerted = e_investigateTarget enemy"
    unfolding same using none by (auto simp: raw_def updateAlert_def Let_def)
  have cap: "e_alertLevel alerted \<le> 100"
    unfolding same by (simp add: raw_def updateAlert_def Let_def)
  show ?thesis
  proof (rule exI [of _ alerted], rule exI [of _ v], unfold Let_def, intro conjI)
    show "alertPhase enemy pl g cfg dt markers = Inr (alerted, v)"
      by (rule run)
    show "inVisionCone enemy pl g cfg = Inr v"
      by (rule v)
    show "v \<longrightarrow>
            e_alertLevel alerted
              = min 100 (e_alertLevel enemy + 100 / (if p_isSneaking pl then 2 else 0.8) * dt) \<and>
            e_lastKnownPlayerPos alerted = Some (p_pos pl) \<and>
            e_investigateTarget alerted = e_investigateTarget enemy"
      by (rule sight)
    show "\<not> v \<and> (canHear enemy pl cfg \<or>
                  (\<exists>m \<in> set markers. distance (e_pos enemy) (n_pos m) \<le> hearingRadius cfg)) \<longrightarrow>
            e_alertLevel alerted = min 100 (e_alertLevel enemy + 30 * dt) \<and>
            e_lastKnownPlayerPos alerted = e_lastKnownPlayerPos enemy \<and>
            (if \<exists>m \<in> set markers. distance (e_pos enemy) (n_pos m) \<le> hearingRadius cfg
             then \<exists>n \<in> set markers.
                    distance (e_pos enemy) (n_pos n) \<le> hearingRadius cfg \<and>
                    e_investigateTarget alerted = Some (n_pos n) \<and>
                    (\<forall>m \<in> set markers. distance (e_pos enemy) (n_pos m) \<le> hearingRadius cfg
                        \<longrightarrow> distance (e_pos enemy) (n_pos n) \<le> distance (e_pos enemy) (n_pos m))
             else e_investigateTarget alerted = Some (p_pos pl))"
      using sound target unfolding noisy_def heard_def by blast
    show "\<not> v \<and> \<not> canHear enemy pl cfg \<and>
          \<not> (\<exists>m \<in> set markers. distance (e_pos enemy) (n_pos m) \<le> hearingRadius cfg) \<longrightarrow>
            e_alertLevel alerted = min 100 (max 0 (e_alertLevel enemy - 15 * dt)) \<and>
            0 \<le> e_alertLevel alerted \<and>
            e_lastKnownPlayerPos alerted = e_lastKnownPlayerPos enemy \<and>
            e_investigateTarget alerted = e_investigateTarget enemy"
      using decay unfolding noisy_def heard_def by blast
    show "e_alertLevel alerted \<le> 100"
      by (rule cap)
  qed
qed

text \<open>The three branches in the example room, with an elapsed time of 0.1: the guard sees a
  walking player five tiles away (alert 0 to 12.5); it does not see the same player sneaking
  but has three noise markers around, two of them in hearing range (alert 0 to 3, target the
  nearer one); and with neither, its alert level 1 decays to 0.\<close>

theorem alert_update_cascade_witness:
  "(\<exists>alerted.
      alertPhase demoGuard (demoPlayer (6.5, 3.5)) demoGrid (DEFAULT_CONFIG 0) 0.1 []
        = Inr (alerted, True) \<and>
      e_alertLevel alerted = 12.5 \<and> e_lastKnownPlayerPos alerted = Some (6.5, 3.5)) \<and>
   (\<exists>alerted.
      alertPhase demoGuard ((demoPlayer (6.5, 3.5))\<lparr>p_isSneaking := True\<rparr>) demoGrid (DEFAULT_CONFIG 0) 0.1
        [\<lparr>n_pos = (1.5, 1.5), n_radius = 2, n_lifetime = 1, n_maxLifetime = 2\<rparr>,
         \<lparr>n_pos = (2.5, 3.5), n_radius = 2, n_lifetime = 1, n_maxLifetime = 2\<rparr>,
         \<lparr>n_pos = (6.5, 3.5), n_radius = 2, n_lifetime = 1, n_maxLifetime = 2\<rparr>]
        = Inr (alerted, False) \<and>
      e_alertLevel alerted = 3 \<and> e_investigateTarget alerted = Some (2.5, 3.5)) \<and>
   (\<exists>alerted.
      alertPhase (demoGuard\<lparr>e_alertLevel := 1\<rparr>) ((demoPlayer (6.5, 3.5))\<lparr>p_isSneaking := True\<rparr>)
        demoGrid (DEFAULT_CONFIG 0) 0.1 []
        = Inr (alerted, False) \<and>
      e_alertLevel alerted = 0)"
proof -
  let ?walker = "demoPlayer (6.5, 3.5)"
  let ?sneaker = "(demoPlayer (6.5, 3.5))\<lparr>p_isSneaking := True\<rparr>"
  let ?markers = "[\<lparr>n_pos = (1.5, 1.5), n_radius = 2, n_lifetime = 1, n_maxLifetime = 2\<rparr>,
         \<lparr>n_pos = (2.5, 3.5), n_radius = 2, n_lifetime = 1, n_maxLifetime = 2\<rparr>,
         \<lparr>n_pos = (6.5, 3.5), n_radius = 2, n_lifetime = (1::real), n_maxLifetime = 2\<rparr>]"
  have seen: "inVisionCone demoGuard ?walker demoGrid (DEFAULT_CONFIG 0) = Inr True"
    by (simp add: inVisionCone_def demoGuard_def demoPlayer_def newEnemy_def initGame_def
          DEFAULT_CONFIG_def angleBetween_def atan2_def angleDifference_def normalizeAngle_id
          degToRad_def hasLineOfSight_def getLinePoints_def getLinePoints_loop.simps
          blocksSight_def inBounds_def tileAt_def demoGrid_def upt_rec)
  have unseen: "inVisionCone (demoGuard\<lparr>e_alertLevel := a\<rparr>) ?sneaker demoGrid (DEFAULT_CONFIG 0) = Inr False" for a
    by (simp add: inVisionCone_def demoGuard_def demoPlayer_def newEnemy_def initGame_def
          DEFAULT_CONFIG_def)
  have unseen0: "inVisionCone demoGuard ?sneaker demoGrid (DEFAULT_CONFIG 0) = Inr False"
    by (simp add: inVisionCone_def demoGuard_def demoPlayer_def newEnemy_def initGame_def
          DEFAULT_CONFIG_def)
  have sight: "\<exists>alerted.
      alertPhase demoGuard ?walker demoGrid (DEFAULT_CONFIG 0) 0.1 [] = Inr (alerted, True) \<and>
      e_alertLevel alerted = 12.5 \<and> e_lastKnownPlayerPos alerted = Some (6.5, 3.5)"
  proof -
    obtain alerted v where
      run: "alertPhase demoGuard ?walker demoGrid (DEFAULT_CONFIG 0) 0.1 [] = Inr (alerted, v)" and
      v: "inVisionCone demoGuard ?walker demoGrid (DEFAULT_CONFIG 0) = Inr v" and
      branch: "v \<longrightarrow>
            e_alertLevel alerted
              = min 100 (e_alertLevel demoGuard + 100 / (if p_isSneaking ?walker then 2 else 0.8) * 0.1) \<and>
            e_lastKnownPlayerPos alerted = Some (p_pos ?walker) \<and>
            e_investigateTarget alerted = e_investigateTarget demoGuard"
      using alert_update_cascade [of demoGuard ?walker demoGrid "DEFAULT_CONFIG 0" "0.1" "[]"]
      unfolding Let_def by blast
    from v seen have "v" by simp
    with branch have "e_alertLevel alerted = 12.5 \<and> e_lastKnownPlayerPos alerted = Some (6.5, 3.5)"
      by (simp add: demoGuard_def newEnemy_def demoPlayer_def initGame_def)
    with run \<open>v\<close> show ?thesis by auto
  qed
  have sound: "\<exists>alerted.
      alertPhase demoGuard ?sneaker demoGrid (DEFAULT_CONFIG 0) 0.1 ?markers = Inr (alerted, False) \<and>
      e_alertLevel alerted = 3 \<and> e_investigateTarget alerted = Some (2.5, 3.5)"
  proof -
    let ?noisy = "\<exists>m \<in> set ?markers. distance (e_pos demoGuard) (n_pos m) \<le> hearingRadius (DEFAULT_CONFIG 0)"
    obtain alerted v where
      run: "alertPhase demoGuard ?sneaker demoGrid (DEFAULT_CONFIG 0) 0.1 ?markers = Inr (alerted, v)" and
      v: "inVisionCone demoGuard ?sneaker demoGrid (DEFAULT_CONFIG 0) = Inr v" and
      branch: "\<not> v \<and> (canHear demoGuard ?sneaker (DEFAULT_CONFIG 0) \<or> ?noisy) \<longrightarrow>
            e_alertLevel alerted = min 100 (e_alertLevel demoGuard + 30 * 0.1) \<and>
            e_lastKnownPlayerPos alerted = e_lastKnownPlayerPos demoGuard \<and>
            (if ?noisy
             then \<exists>n \<in> set ?markers.
                    distance (e_pos demoGuard) (n_pos n) \<le> hearingRadius (DEFAULT_CONFIG 0) \<and>
                    e_investigateTarget alerted = Some (n_pos n) \<and>
                    (\<forall>m \<in> set ?markers. distance (e_pos demoGuard) (n_pos m) \<le> hearingRadius (DEFAULT_CONFIG 0)
                        \<longrightarrow> distance (e_pos demoGuard) (n_pos n) \<le> distance (e_pos demoGuard) (n_pos m))
             else e_investigateTarget alerted = Some (p_pos ?sneaker))"
      using alert_update_cascade [of demoGuard ?sneaker demoGrid "DEFAULT_CONFIG 0" "0.1" ?markers]
      unfolding Let_def by blast
    from v unseen0 have "\<not> v" by simp
    with branch have "e_alertLevel alerted = 3 \<and> e_investigateTarget alerted = Some (2.5, 3.5)"
      by (simp add: demoGuard_def newEnemy_def demoPlayer_def initGame_def DEFAULT_CONFIG_def)
    with run \<open>\<not> v\<close> show ?thesis by auto
  qed
  have decay: "\<exists>alerted.
      alertPhase (demoGuard\<lparr>e_alertLevel := 1\<rparr>) ?sneaker demoGrid (DEFAULT_CONFIG 0) 0.1 []
        = Inr (alerted, False) \<and>
      e_alertLevel alerted = 0"
  proof -
    obtain alerted v where
      run: "alertPhase (demoGuard\<lparr>e_alertLevel := 1\<rparr>) ?sneaker demoGrid (DEFAULT_CONFIG 0) 0.1 [] = Inr (alerted, v)" and
      v: "inVisionCone (demoGuard\<lparr>e_alertLevel := 1\<rparr>) ?sneaker demoGrid (DEFAULT_CONFIG 0) = Inr v" and
      branch: "\<not> v \<and> \<not> canHear (demoGuard\<lparr>e_alertLevel := 1\<rparr>) ?sneaker (DEFAULT_CONFIG 0) \<and>
               \<not> (\<exists>m \<in> set ([] :: NoiseMarker list).
                     distance (e_pos (demoGuard\<lparr>e_alertLevel := 1\<rparr>)) (n_pos m) \<le> hearingRadius (DEFAULT_CONFIG 0)) \<longrightarrow>
            e_alertLevel alerted = min 100 (max 0 (e_alertLevel (demoGuard\<lparr>e_alertLevel := 1\<rparr>) - 15 * 0.1))"
      using alert_update_cascade [of "demoGuard\<lparr>e_alertLevel := 1\<rparr>" ?sneaker demoGrid "DEFAULT_CONFIG 0" "0.1" "[]"]
      unfolding Let_def by blast
    from v unseen [of 1] have "\<not> v" by simp
    with branch have "e_alertLevel alerted = 0"
      by (simp add: canHear_def demoGuard_def newEnemy_def demoPlayer_def initGame_def DEFAULT_CONFIG_def)
    with run \<open>\<not> v\<close> show ?thesis by auto
  qed
  from sight sound decay show ?thesis by blast
qed

section \<open>The chase state\<close>



section \<open>Bullets\<close>

text \<open>The enemy a player bullet leaves behind when it hits, and the pickups the hit drops.\<close>

lemma hitEnemy_first:
  assumes "j < length es" and "\<not> e_isDead (es ! j)"
    and "distance (b_pos bullet) (e_pos (es ! j)) < 0.4"
    and "\<forall>k < j. e_isDead (es ! k) \<or> \<not> distance (b_pos bullet) (e_pos (es ! k)) < 0.4"
  shows "hitEnemy bullet es =
     Some (es[j := (if e_health (es ! j) - 1 \<le> 0
                    then (es ! j)\<lparr>e_health := e_health (es ! j) - 1, e_isDead := True\<rparr>
                    else (es ! j)\<lparr>e_health := e_health (es ! j) - 1\<rparr>)],
           if e_health (es ! j) - 1 \<le> 0
           then [\<lparr>a_pos = e_pos (es ! j), a_amount = e_ammo (es ! j) div 2 + 2, a_collected = False\<rparr>]
           else [])"
  using assms
proof (induction es arbitrary: j)
  case Nil
  then show ?case by simp
next
  case (Cons e es)
  show ?case
  proof (cases j)
    case 0
    with Cons.prems show ?thesis
      by (simp add: Let_def)
  next
    case (Suc j')
    from Cons.prems(4) Suc have skip: "e_isDead e \<or> \<not> distance (b_pos bullet) (e_pos e) < 0.4"
      by auto
    have rest: "\<forall>k < j'. e_isDead (es ! k) \<or> \<not> distance (b_pos bullet) (e_pos (es ! k)) < 0.4"
      using Cons.prems(4) Suc by auto
    have "hitEnemy bullet es =
     Some (es[j' := (if e_health (es ! j') - 1 \<le> 0
                    then (es ! j')\<lparr>e_health := e_health (es ! j') - 1, e_isDead := True\<rparr>
                    else (es ! j')\<lparr>e_health := e_health (es ! j') - 1\<rparr>)],
           if e_health (es ! j') - 1 \<le> 0
           then [\<lparr>a_pos = e_pos (es ! j'), a_amount = e_ammo (es ! j') div 2 + 2, a_collected = False\<rparr>]
           else [])"
      using Cons.prems(1-3) Suc rest by (intro Cons.IH) auto
    with skip Suc show ?thesis
      by auto
  qed
qed

lemma splice1_update [simp]: "splice1 i (xs[i := x]) = splice1 i xs"
  by (simp add: splice1_def)

text \<open>
  Claim C6. Let bullet \<open>i\<close> be a bullet of the player that, moved by its velocity times
  \<open>deltaTime\<close> to \<open>pos\<close>, is on a walkable tile and has lifetime left, and let enemy \<open>j\<close> be
  the first live enemy, in the order of the array, within 0.4 of \<open>pos\<close>. Then the body of the
  bullet loop removes that bullet and leaves the others; the health of enemy \<open>j\<close> falls by
  exactly 1 and no other enemy changes; if that health is then at most 0, enemy \<open>j\<close> is
  marked dead and exactly one pickup is appended, uncollected, at the enemy's position, of
  amount \<open>floor(ammo / 2) + 2\<close> for the enemy's ammo; otherwise nothing is dropped. The
  player is not touched.
\<close>

theorem player_bullet_hit:
  assumes "i < length (bullets s)"
    and "b_isPlayerBullet (bullets s ! i)"
    and "pos = (fst (b_pos (bullets s ! i)) + fst (b_velocity (bullets s ! i)) * dt,
                snd (b_pos (bullets s ! i)) + snd (b_velocity (bullets s ! i)) * dt)"
    and "isWalkable (grid s) (of_int \<lfloor>fst pos\<rfloor>) (of_int \<lfloor>snd pos\<rfloor>)"
    and "0 < b_lifetime (bullets s ! i) - dt"
    and "j < length (enemies s)"
    and "\<not> e_isDead (enemies s ! j)"
    and "distance pos (e_pos (enemies s ! j)) < 0.4"
    and "\<forall>k < j. e_isDead (enemies s ! k) \<or> \<not> distance pos (e_pos (enemies s ! k)) < 0.4"
  shows "bullets (bulletStep dt i s) = splice1 i (bullets s) \<and>
     length (enemies (bulletStep dt i s)) = length (enemies s) \<and>
     (\<forall>k < length (enemies s). k \<noteq> j \<longrightarrow> enemies (bulletStep dt i s) ! k = enemies s ! k) \<and>
     e_health (enemies (bulletStep dt i s) ! j) = e_health (enemies s ! j) - 1 \<and>
     (if e_health (enemies s ! j) - 1 \<le> 0
      then enemies (bulletStep dt i s) ! j
             = (enemies s ! j)\<lparr>e_health := e_health (enemies s ! j) - 1, e_isDead := True\<rparr> \<and>
           ammoPickups (bulletStep dt i s)
             = ammoPickups s @
               [\<lparr>a_pos = e_pos (enemies s ! j),
                 a_amount = \<lfloor>real_of_int (e_ammo (enemies s ! j)) / 2\<rfloor> + 2,
                 a_collected = False\<rparr>]
      else enemies (bulletStep dt i s) ! j
             = (enemies s ! j)\<lparr>e_health := e_health (enemies s ! j) - 1\<rparr> \<and>
           ammoPickups (bulletStep dt i s) = ammoPickups s) \<and>
     player (bulletStep dt i s) = player s \<and>
     isGameOver (bulletStep dt i s) = isGameOver s"
proof -
  define bullet where
    "bullet = (bullets s ! i)\<lparr>b_pos := pos, b_lifetime := b_lifetime (bullets s ! i) - dt\<rparr>"
  define target where "target = enemies s ! j"
  define es where "es = (enemies s)[j := (if e_health target - 1 \<le> 0
                    then target\<lparr>e_health := e_health target - 1, e_isDead := True\<rparr>
                    else target\<lparr>e_health := e_health target - 1\<rparr>)]"
  define drops where "drops = (if e_health target - 1 \<le> 0
           then [\<lparr>a_pos = e_pos target, a_amount = e_ammo target div 2 + 2, a_collected = False\<rparr>]
           else [])"
  have hit: "hitEnemy bullet (enemies s) = Some (es, drops)"
    unfolding es_def drops_def target_def
    using assms(6-9) by (intro hitEnemy_first) (simp_all add: bullet_def)
  have step: "bulletStep dt i s
      = s\<lparr>bullets := splice1 i (bullets s), enemies := es, ammoPickups := ammoPickups s @ drops\<rparr>"
    using assms(2,4,5) hit unfolding bullet_def assms(3)
    by (simp add: bulletStep_def Let_def)
  have half: "\<lfloor>real_of_int (e_ammo target) / 2\<rfloor> = e_ammo target div 2"
    using floor_divide_of_int_eq [of "e_ammo target" 2, where ?'a = real] by simp
  show ?thesis
    unfolding step target_def [symmetric] half
    using assms(6) by (simp add: es_def drops_def target_def)
qed

text \<open>The guard (health 1, ammo 6) is hit by the bullet of the example: it dies and drops 5.\<close>

theorem player_bullet_hit_witness:
  "e_health (enemies shotState ! 0) = 1 \<and> \<not> e_isDead (enemies shotState ! 0) \<and>
   bullets (bulletStep 0.1 0 shotState) = [] \<and>
   e_health (enemies (bulletStep 0.1 0 shotState) ! 0) = 0 \<and>
   e_isDead (enemies (bulletStep 0.1 0 shotState) ! 0) \<and>
   ammoPickups (bulletStep 0.1 0 shotState)
     = [\<lparr>a_pos = (1.5, 3.5), a_amount = 5, a_collected = False\<rparr>]"
proof -
  have s: "enemies shotState = [demoGuard]" "ammoPickups shotState = []" "grid shotState = demoGrid"
    "bullets shotState = [\<lparr>b_id = 0, b_pos = (3, 3.5), b_velocity = (- 15, 0), b_isPlayerBullet = True, b_lifetime = 2\<rparr>]"
    by (simp_all add: shotState_def demoState_def initGame_def)
  have g: "e_health demoGuard = 1" "\<not> e_isDead demoGuard" "e_pos demoGuard = (1.5, 3.5)"
    "e_ammo demoGuard = 6"
    by (simp_all add: demoGuard_def newEnemy_def enemyHealth_def enemyAmmo_def)
  have "bullets (bulletStep 0.1 0 shotState) = splice1 0 (bullets shotState) \<and>
     length (enemies (bulletStep 0.1 0 shotState)) = length (enemies shotState) \<and>
     (\<forall>k < length (enemies shotState). k \<noteq> 0 \<longrightarrow> enemies (bulletStep 0.1 0 shotState) ! k = enemies shotState ! k) \<and>
     e_health (enemies (bulletStep 0.1 0 shotState) ! 0) = e_health (enemies shotState ! 0) - 1 \<and>
     (if e_health (enemies shotState ! 0) - 1 \<le> 0
      then enemies (bulletStep 0.1 0 shotState) ! 0
             = (enemies shotState ! 0)\<lparr>e_health := e_health (enemies shotState ! 0) - 1, e_isDead := True\<rparr> \<and>
           ammoPickups (bulletStep 0.1 0 shotState)
             = ammoPickups shotState @
               [\<lparr>a_pos = e_pos (enemies shotState ! 0),
                 a_amount = \<lfloor>real_of_int (e_ammo (enemies shotState ! 0)) / 2\<rfloor> + 2,
                 a_collected = False\<rparr>]
      else enemies (bulletStep 0.1 0 shotState) ! 0
             = (enemies shotState ! 0)\<lparr>e_health := e_health (enemies shotState ! 0) - 1\<rparr> \<and>
           ammoPickups (bulletStep 0.1 0 shotState) = ammoPickups shotState) \<and>
     player (bulletStep 0.1 0 shotState) = player shotState \<and>
     isGameOver (bulletStep 0.1 0 shotState) = isGameOver shotState"
    by (rule player_bullet_hit [where j = 0 and pos = "(3 + - 15 * 0.1, 3.5 + 0 * 0.1)"])
       (simp_all add: s g isWalkable_def inBounds_def tileAt_def demoGrid_def)
  then show ?thesis
    by (simp add: s g splice1_def)
qed

section \<open>The phases of a tick\<close>

lemma evolves_refl [simp]: "evolves s s"
  by (simp add: evolves_def list_all2_same)

lemma health_falls_trans:
  assumes "list_all2 (\<lambda>e e'. e_health e' \<le> e_health e) xs ys"
    and "list_all2 (\<lambda>e e'. e_health e' \<le> e_health e) ys zs"
  shows "list_all2 (\<lambda>e e'. e_health e' \<le> e_health e) xs zs"
proof -
  have len: "length xs = length ys" "length ys = length zs"
    using assms by (auto dest: list_all2_lengthD)
  have "e_health (zs ! i) \<le> e_health (xs ! i)" if "i < length xs" for i
  proof -
    have "e_health (ys ! i) \<le> e_health (xs ! i)"
      using assms(1) that by (simp add: list_all2_conv_all_nth)
    moreover have "e_health (zs ! i) \<le> e_health (ys ! i)"
      using assms(2) that len by (simp add: list_all2_conv_all_nth)
    ultimately show ?thesis by simp
  qed
  with len show ?thesis
    by (simp add: list_all2_conv_all_nth)
qed

lemma evolves_trans: "evolves s t \<Longrightarrow> evolves t u \<Longrightarrow> evolves s u"
  unfolding evolves_def
  using health_falls_trans [of "enemies s" "enemies t" "enemies u"] by simp

lemma updatePlayer_enemies [simp]: "enemies (fst (updatePlayer s input dt)) = enemies s"
  by (simp add: updatePlayer_def playerShoot_def Let_def)

lemma updatePlayer_flags [simp]:
  "isWin (fst (updatePlayer s input dt)) = isWin s"
  "isGameOver (fst (updatePlayer s input dt)) = isGameOver s"
  "isPaused (fst (updatePlayer s input dt)) = isPaused s"
  "grid (fst (updatePlayer s input dt)) = grid s"
  "config (fst (updatePlayer s input dt)) = config s"
  by (simp_all add: updatePlayer_def playerShoot_def Let_def)

lemma updatePlayer_health [simp]:
  "p_health (player (fst (updatePlayer s input dt))) = p_health (player s)"
  "p_maxHealth (player (fst (updatePlayer s input dt))) = p_maxHealth (player s)"
  by (simp_all add: updatePlayer_def playerShoot_def Let_def)

lemma updatePlayer_evolves: "evolves s (fst (updatePlayer s input dt))"
  by (simp add: evolves_def list_all2_same)

lemma updatePlayer_invariant:
  "stateInvariant (fst (updatePlayer s input dt)) = stateInvariant s"
  by (simp add: stateInvariant_def)

lemma hitEnemy_length: "hitEnemy b es = Some (es', drops) \<Longrightarrow> length es' = length es"
  by (induction es arbitrary: es' drops) (auto simp: Let_def split: if_splits)

lemma hitEnemy_health:
  "hitEnemy b es = Some (es', drops) \<Longrightarrow> list_all2 (\<lambda>e e'. e_health e' \<le> e_health e) es es'"
  by (induction es arbitrary: es' drops)
     (auto simp: Let_def list_all2_same split: if_splits)

lemma hitEnemy_waypoints:
  "hitEnemy b es = Some (es', drops) \<Longrightarrow> list_all waypointsValid es
     \<Longrightarrow> list_all waypointsValid es'"
  by (induction es arbitrary: es' drops)
     (auto simp: Let_def waypointsValid_def split: if_splits)

lemma hitEnemy_invariant:
  "hitEnemy b es = Some (es', drops) \<Longrightarrow> list_all enemyInvariant es
     \<Longrightarrow> list_all enemyInvariant es'"
  by (induction es arbitrary: es' drops)
     (auto simp: Let_def enemyInvariant_def split: if_splits)

lemma hitEnemy_dead:
  "hitEnemy b es = Some (es', drops) \<Longrightarrow> list_all e_isDead es \<Longrightarrow> False"
  by (induction es arbitrary: es' drops) (auto simp: Let_def split: if_splits)

lemma bulletStep_flags [simp]:
  "isWin (bulletStep dt i s) = isWin s"
  "isPaused (bulletStep dt i s) = isPaused s"
  "grid (bulletStep dt i s) = grid s"
  "config (bulletStep dt i s) = config s"
  by (simp_all add: bulletStep_def Let_def split: option.splits)

lemma bulletStep_evolves: "evolves s (bulletStep dt i s)"
  by (auto simp: evolves_def bulletStep_def Let_def list_all2_same hitEnemy_health
      split: option.splits)

lemma bulletStep_waypoints:
  "list_all waypointsValid (enemies s) \<Longrightarrow> list_all waypointsValid (enemies (bulletStep dt i s))"
  by (auto simp: bulletStep_def Let_def hitEnemy_waypoints split: option.splits)

lemma bulletStep_invariant:
  "stateInvariant s \<Longrightarrow> stateInvariant (bulletStep dt i s)"
  by (auto simp: stateInvariant_def bulletStep_def Let_def hitEnemy_waypoints hitEnemy_invariant
      split: option.splits)

lemma bulletStep_gameOver: "isGameOver s \<Longrightarrow> isGameOver (bulletStep dt i s)"
  by (auto simp: bulletStep_def Let_def split: option.splits)

lemma updateBullets_loop_flags [simp]:
  "isWin (updateBullets_loop dt n s) = isWin s"
  "isPaused (updateBullets_loop dt n s) = isPaused s"
  "grid (updateBullets_loop dt n s) = grid s"
  "config (updateBullets_loop dt n s) = config s"
  by (induction n arbitrary: s; simp)+

lemma updateBullets_loop_evolves: "evolves s (updateBullets_loop dt n s)"
proof (induction n arbitrary: s)
  case 0
  show ?case by simp
next
  case (Suc n)
  show ?case
    using evolves_trans [OF bulletStep_evolves Suc] by simp
qed

lemma updateBullets_loop_waypoints:
  "list_all waypointsValid (enemies s)
     \<Longrightarrow> list_all waypointsValid (enemies (updateBullets_loop dt n s))"
  by (induction n arbitrary: s) (simp_all add: bulletStep_waypoints)

lemma updateBullets_loop_invariant:
  "stateInvariant s \<Longrightarrow> stateInvariant (updateBullets_loop dt n s)"
  by (induction n arbitrary: s) (simp_all add: bulletStep_invariant)

lemma updateBullets_loop_gameOver:
  "isGameOver s \<Longrightarrow> isGameOver (updateBullets_loop dt n s)"
  by (induction n arbitrary: s) (simp_all add: bulletStep_gameOver)

lemma updateAlert_bounds:
  assumes "0 \<le> dt" and "0 \<le> e_alertLevel e"
  shows "0 \<le> e_alertLevel (updateAlert e pl dt v h n) \<and> e_alertLevel (updateAlert e pl dt v h n) \<le> 100"
proof -
  have "0 \<le> 100 / (if p_isSneaking pl then 2 else 0.8) * dt"
    using assms(1) by simp
  moreover have "0 \<le> 30 * dt"
    using assms(1) by simp
  ultimately show ?thesis
    using assms(2) by (auto simp: updateAlert_def Let_def)
qed

lemma patrolBehavior_returns:
  "waypointsValid e \<Longrightarrow> \<exists>e'. patrolBehavior e g dt = Inr e'"
  by (auto simp: patrolBehavior_def waypointsValid_def Let_def)

lemma patrolBehavior_props:
  assumes "patrolBehavior e g dt = Inr e'"
  shows "e_health e' = e_health e \<and> e_isDead e' = e_isDead e \<and>
         e_alertLevel e' = e_alertLevel e \<and> waypointsValid e'"
  using assms
  by (auto simp: patrolBehavior_def waypointsValid_def Let_def split: if_splits)

lemma stateMachine_returns:
  "waypointsValid e \<Longrightarrow> \<exists>e' sh. stateMachine e pl g cfg dt v d = Inr (e', sh)"
  using patrolBehavior_returns [of e g dt]
  by (cases "e_state e")
     (auto simp: stateMachine_def Let_def split: prod.splits)

lemma stateMachine_props:
  assumes "stateMachine e pl g cfg dt v d = Inr (e', sh)"
  shows "e_health e' = e_health e \<and> e_isDead e' = e_isDead e \<and>
         (e_alertLevel e' = e_alertLevel e \<or> e_alertLevel e' = 30) \<and>
         (waypointsValid e \<longrightarrow> waypointsValid e')"
proof (cases "e_state e")
  case PATROL
  with assms show ?thesis
    using patrolBehavior_props [of e g dt]
    by (auto simp: stateMachine_def waypointsValid_def split: if_splits sum.splits)
next
  case INVESTIGATE
  with assms show ?thesis
    by (auto simp: stateMachine_def investigateBehavior_def waypointsValid_def Let_def
        split: if_splits option.splits)
next
  case CHASE
  with assms show ?thesis
    by (auto simp: stateMachine_def chaseBehavior_def waypointsValid_def Let_def
        split: if_splits)
next
  case RETURN
  with assms show ?thesis
    by (auto simp: stateMachine_def returnBehavior_def waypointsValid_def Let_def
        split: if_splits prod.splits)
qed

lemma alertPhase_returns: "\<exists>alerted v. alertPhase e pl g cfg dt ms = Inr (alerted, v)"
  using inVisionCone_returns [of e pl g cfg] alertPhase_eq by blast

lemma alertPhase_props:
  assumes "alertPhase e pl g cfg dt ms = Inr (alerted, v)"
  shows "e_health alerted = e_health e \<and> e_isDead alerted = e_isDead e \<and>
         e_waypoints alerted = e_waypoints e \<and>
         e_currentWaypointIndex alerted = e_currentWaypointIndex e \<and>
         (0 \<le> dt \<and> 0 \<le> e_alertLevel e
            \<longrightarrow> 0 \<le> e_alertLevel alerted \<and> e_alertLevel alerted \<le> 100)"
proof -
  obtain w where w: "inVisionCone e pl g cfg = Inr w"
    using inVisionCone_returns by blast
  from alertPhase_eq [OF w, of dt ms] assms
  have "alerted = (updateAlert e pl dt w (canHear e pl cfg) (closestNoise e cfg ms))
              \<lparr>e_shootCooldown := max 0 (e_shootCooldown e - dt)\<rparr>"
    by simp
  then show ?thesis
    using updateAlert_bounds [of dt e pl w "canHear e pl cfg" "closestNoise e cfg ms"]
    by simp
qed

lemma updateEnemy_returns:
  "waypointsValid e \<Longrightarrow> \<exists>e' r. updateEnemy e pl g cfg dt ms = Inr (e', r)"
proof (cases "e_isDead e")
  case True
  then show ?thesis by (simp add: updateEnemy_def)
next
  case False
  assume valid: "waypointsValid e"
  obtain alerted v where phase: "alertPhase e pl g cfg dt ms = Inr (alerted, v)"
    using alertPhase_returns by blast
  have "waypointsValid alerted"
    using valid alertPhase_props [OF phase] by (simp add: waypointsValid_def)
  then obtain e' sh where "stateMachine alerted pl g cfg dt v (distance (e_pos e) (p_pos pl)) = Inr (e', sh)"
    using stateMachine_returns by blast
  with False phase show ?thesis
    by (simp add: updateEnemy_def)
qed

lemma updateEnemy_live:
  assumes "\<not> e_isDead e" and "updateEnemy e pl g cfg dt ms = Inr (e', r)"
  shows "\<exists>alerted v sh.
           alertPhase e pl g cfg dt ms = Inr (alerted, v) \<and>
           stateMachine alerted pl g cfg dt v (distance (e_pos e) (p_pos pl)) = Inr (e', sh) \<and>
           r = \<lparr>detected = v, alertLevel = e_alertLevel e', shouldShoot = sh\<rparr>"
proof -
  obtain alerted v where phase: "alertPhase e pl g cfg dt ms = Inr (alerted, v)"
    using alertPhase_returns by blast
  show ?thesis
  proof (cases "stateMachine alerted pl g cfg dt v (distance (e_pos e) (p_pos pl))")
    case (Inl f)
    with assms phase show ?thesis
      by (simp add: updateEnemy_def)
  next
    case (Inr res)
    obtain final sh where res: "res = (final, sh)"
      by (cases res)
    with Inr assms phase have "e' = final" "r = \<lparr>detected = v, alertLevel = e_alertLevel final, shouldShoot = sh\<rparr>"
      by (auto simp: updateEnemy_def)
    with Inr res phase show ?thesis
      by blast
  qed
qed

lemma alertPhase_cap:
  assumes "alertPhase e pl g cfg dt ms = Inr (alerted, v)"
  shows "e_alertLevel alerted \<le> 100"
proof -
  obtain w where w: "inVisionCone e pl g cfg = Inr w"
    using inVisionCone_returns by blast
  from alertPhase_eq [OF w, of dt ms] assms
  have "alerted = (updateAlert e pl dt w (canHear e pl cfg) (closestNoise e cfg ms))
              \<lparr>e_shootCooldown := max 0 (e_shootCooldown e - dt)\<rparr>"
    by simp
  then show ?thesis
    by (simp add: updateAlert_def Let_def)
qed

lemma updateEnemy_props:
  assumes "updateEnemy e pl g cfg dt ms = Inr (e', r)"
  shows "e_health e' = e_health e \<and> e_isDead e' = e_isDead e \<and>
         alertLevel r \<le> 100 \<and>
         (waypointsValid e \<longrightarrow> waypointsValid e') \<and>
         (0 \<le> dt \<and> enemyInvariant e \<longrightarrow> enemyInvariant e' \<and> 0 \<le> alertLevel r)"
proof (cases "e_isDead e")
  case True
  with assms have "e' = e" "alertLevel r = 0"
    by (auto simp: updateEnemy_def)
  then show ?thesis by simp
next
  case False
  from updateEnemy_live [OF False assms] obtain alerted v sh where
    phase: "alertPhase e pl g cfg dt ms = Inr (alerted, v)" and
    sm: "stateMachine alerted pl g cfg dt v (distance (e_pos e) (p_pos pl)) = Inr (e', sh)" and
    r: "r = \<lparr>detected = v, alertLevel = e_alertLevel e', shouldShoot = sh\<rparr>"
    by blast
  note a = alertPhase_props [OF phase]
  note b = stateMachine_props [OF sm]
  have health: "e_health e' = e_health e" "e_isDead e' = e_isDead e"
    using a b by simp_all
  have wp: "waypointsValid e \<longrightarrow> waypointsValid e'"
  proof
    assume "waypointsValid e"
    then have "waypointsValid alerted"
      using a by (simp add: waypointsValid_def)
    with b show "waypointsValid e'" by simp
  qed
  have level: "e_alertLevel e' = e_alertLevel alerted \<or> e_alertLevel e' = 30"
    using b by simp
  have cap: "e_alertLevel e' \<le> 100"
    using level alertPhase_cap [OF phase] by auto
  have low: "0 \<le> e_alertLevel e'" if "0 \<le> dt" "enemyInvariant e"
  proof -
    from that a have "0 \<le> e_alertLevel alerted"
      by (simp add: enemyInvariant_def)
    with level show ?thesis by auto
  qed
  have inv: "enemyInvariant e'" if "0 \<le> dt" "enemyInvariant e"
    using that low [OF that] cap health by (simp add: enemyInvariant_def)
  from health wp cap low inv show ?thesis
    by (simp add: r)
qed

lemma list_all_update:
  "list_all P xs \<Longrightarrow> P y \<Longrightarrow> list_all P (xs[i := y])"
  using set_update_subset_insert [of xs i y] by (auto simp: list_all_iff)

lemma health_falls_update:
  "i < length xs \<Longrightarrow> e_health y \<le> e_health (xs ! i)
     \<Longrightarrow> list_all2 (\<lambda>e e'. e_health e' \<le> e_health e) xs (xs[i := y])"
  by (auto simp: list_all2_conv_all_nth nth_list_update)

text \<open>The state after the body of the enemy loop, for a live enemy: the enemy at \<open>i\<close> is
  the updated one, with one round less and a fresh cooldown if it fired; the player has lost
  a point of health if the enemy caught it.\<close>

lemma enemyStep_live:
  assumes "i < length (enemies s)" and "\<not> e_isDead (enemies s ! i)"
    and "enemyStep dt i (s, m) = Inr (s', m')"
  shows "\<exists>enemy result fired.
     updateEnemy (enemies s ! i) (player s) (grid s) (config s) dt (noiseMarkers s)
       = Inr (enemy, result) \<and>
     m' = max m (alertLevel result) \<and>
     e_health fired = e_health enemy \<and> e_isDead fired = e_isDead enemy \<and>
     e_alertLevel fired = e_alertLevel enemy \<and> e_waypoints fired = e_waypoints enemy \<and>
     e_currentWaypointIndex fired = e_currentWaypointIndex enemy \<and>
     enemies s' = (enemies s)[i := fired] \<and>
     grid s' = grid s \<and> config s' = config s \<and> isPaused s' = isPaused s \<and>
     isWin s' = isWin s \<and>
     p_pos (player s') = p_pos (player s) \<and>
     p_maxHealth (player s') = p_maxHealth (player s) \<and>
     ((p_health (player s') = p_health (player s) \<and> isGameOver s' = isGameOver s) \<or>
      (p_health (player s') = p_health (player s) - 1 \<and>
       isGameOver s' = (isGameOver s \<or> p_health (player s) - 1 \<le> 0)))"
proof (cases "updateEnemy (enemies s ! i) (player s) (grid s) (config s) dt (noiseMarkers s)")
  case (Inl f)
  with assms show ?thesis
    by (simp add: enemyStep_def)
next
  case (Inr res)
  obtain enemy result where res: "res = (enemy, result)"
    by (cases res)
  define updated where "updated = s\<lparr>enemies := (enemies s)[i := enemy]\<rparr>"
  define shot where "shot = (if shouldShoot result \<and> e_ammo enemy > 0 \<and> e_shootCooldown enemy \<le> 0
                           then enemyShoot updated i else updated)"
  define fired where "fired = enemies shot ! i"
  have fired: "e_health fired = e_health enemy" "e_isDead fired = e_isDead enemy"
      "e_alertLevel fired = e_alertLevel enemy" "e_waypoints fired = e_waypoints enemy"
      "e_currentWaypointIndex fired = e_currentWaypointIndex enemy"
      "e_pos fired = e_pos enemy"
    using assms(1) by (simp_all add: fired_def shot_def updated_def enemyShoot_def Let_def)
  have shot: "enemies shot = (enemies s)[i := fired]" "grid shot = grid s" "config shot = config s"
      "isPaused shot = isPaused s" "isWin shot = isWin s" "player shot = player s"
      "isGameOver shot = isGameOver s"
    using assms(1) by (simp_all add: fired_def shot_def updated_def enemyShoot_def Let_def)
  define caught where "caught = (if distance (e_pos fired) (p_pos (player shot)) < 0.8 \<and>
                                e_alertLevel fired \<ge> 100
                             then
                               let hurt = (player shot)\<lparr>p_health := p_health (player shot) - 1\<rparr>;
                                   hit = shot\<lparr>player := hurt\<rparr>
                               in if p_health hurt \<le> 0 then hit\<lparr>isGameOver := True\<rparr> else hit
                             else shot)"
  have "enemyStep dt i (s, m) = Inr (caught, max m (alertLevel result))"
    using assms(2)
    by (simp only: enemyStep_def Let_def fst_conv snd_conv if_False Inr res sum.case
          prod.case caught_def fired_def shot_def updated_def)
  with assms(3) have step: "s' = caught" "m' = max m (alertLevel result)"
    by simp_all
  have caught: "enemies caught = (enemies s)[i := fired]" "grid caught = grid s"
      "config caught = config s" "isPaused caught = isPaused s" "isWin caught = isWin s"
      "p_pos (player caught) = p_pos (player s)"
      "p_maxHealth (player caught) = p_maxHealth (player s)"
    using shot by (simp_all add: caught_def Let_def)
  have hurt: "(p_health (player caught) = p_health (player s) \<and> isGameOver caught = isGameOver s) \<or>
      (p_health (player caught) = p_health (player s) - 1 \<and>
       isGameOver caught = (isGameOver s \<or> p_health (player s) - 1 \<le> 0))"
    using shot by (auto simp: caught_def Let_def)
  show ?thesis
    using Inr res step fired(1-5) caught hurt by blast
qed

lemma enemyStep_dead:
  "e_isDead (enemies s ! i) \<Longrightarrow> enemyStep dt i (s, m) = Inr (s, m)"
  by (simp add: enemyStep_def)

lemma enemyStep_returns:
  assumes "i < length (enemies s)" and "list_all waypointsValid (enemies s)"
  shows "\<exists>s' m'. enemyStep dt i (s, m) = Inr (s', m')"
proof (cases "e_isDead (enemies s ! i)")
  case True
  then show ?thesis by (simp add: enemyStep_dead)
next
  case False
  have "waypointsValid (enemies s ! i)"
    using assms by (simp add: list_all_length)
  then obtain enemy result where
    "updateEnemy (enemies s ! i) (player s) (grid s) (config s) dt (noiseMarkers s)
       = Inr (enemy, result)"
    using updateEnemy_returns by blast
  with False show ?thesis
    by (simp add: enemyStep_def Let_def)
qed

lemma enemyStep_props:
  assumes "i < length (enemies s)" and "enemyStep dt i (s, m) = Inr (s', m')"
  shows "evolves s s' \<and> isWin s' = isWin s \<and> p_pos (player s') = p_pos (player s) \<and>
         length (enemies s') = length (enemies s) \<and>
         list_all e_isDead (enemies s') = list_all e_isDead (enemies s) \<and>
         (list_all waypointsValid (enemies s) \<longrightarrow> list_all waypointsValid (enemies s')) \<and>
         (0 \<le> dt \<and> stateInvariant s \<longrightarrow> stateInvariant s')"
proof (cases "e_isDead (enemies s ! i)")
  case True
  with assms(2) have "s' = s"
    by (simp add: enemyStep_dead)
  then show ?thesis by simp
next
  case False
  from enemyStep_live [OF assms(1) False assms(2)] obtain enemy result fired where
    run: "updateEnemy (enemies s ! i) (player s) (grid s) (config s) dt (noiseMarkers s)
            = Inr (enemy, result)" and
    fired: "e_health fired = e_health enemy" "e_isDead fired = e_isDead enemy"
      "e_alertLevel fired = e_alertLevel enemy" "e_waypoints fired = e_waypoints enemy"
      "e_currentWaypointIndex fired = e_currentWaypointIndex enemy" and
    es: "enemies s' = (enemies s)[i := fired]" and
    same: "grid s' = grid s" "config s' = config s" "isPaused s' = isPaused s"
      "isWin s' = isWin s" "p_pos (player s') = p_pos (player s)"
      "p_maxHealth (player s') = p_maxHealth (player s)" and
    hurt: "(p_health (player s') = p_health (player s) \<and> isGameOver s' = isGameOver s) \<or>
      (p_health (player s') = p_health (player s) - 1 \<and>
       isGameOver s' = (isGameOver s \<or> p_health (player s) - 1 \<le> 0))"
    by blast
  note props = updateEnemy_props [OF run]
  have health: "e_health fired = e_health (enemies s ! i)" "e_isDead fired = e_isDead (enemies s ! i)"
    using props fired by simp_all
  have falls: "list_all2 (\<lambda>e e'. e_health e' \<le> e_health e) (enemies s) (enemies s')"
    unfolding es using assms(1) health by (intro health_falls_update) simp_all
  have ev: "evolves s s'"
    using same falls hurt by (auto simp: evolves_def)
  have dead: "list_all e_isDead (enemies s') = list_all e_isDead (enemies s)"
  proof -
    have "(enemies s)[i := fired] ! k = enemies s ! k \<or> (k = i \<and> (enemies s)[i := fired] ! k = fired)"
      if "k < length (enemies s)" for k
      using that by (cases "k = i") simp_all
    then show ?thesis
      unfolding es using False health(2) assms(1)
      by (auto simp: list_all_length)
  qed
  have wp: "list_all waypointsValid (enemies s')" if "list_all waypointsValid (enemies s)"
  proof -
    have "waypointsValid (enemies s ! i)"
      using that assms(1) by (simp add: list_all_length)
    then have "waypointsValid enemy"
      using props by simp
    then have "waypointsValid fired"
      using fired by (simp add: waypointsValid_def)
    with that show ?thesis
      unfolding es by (rule list_all_update)
  qed
  have inv: "stateInvariant s'" if "0 \<le> dt" "stateInvariant s"
  proof -
    have "enemyInvariant (enemies s ! i)"
      using that(2) assms(1) by (simp add: stateInvariant_def list_all_length)
    then have "enemyInvariant enemy"
      using props that(1) by simp
    then have "enemyInvariant fired"
      using fired by (simp add: enemyInvariant_def)
    then have "list_all enemyInvariant (enemies s')"
      unfolding es using that(2) by (intro list_all_update) (simp add: stateInvariant_def)
    moreover have "list_all waypointsValid (enemies s')"
      using wp that(2) by (simp add: stateInvariant_def)
    moreover have "p_health (player s') \<le> p_maxHealth (player s')"
      using hurt same that(2) by (auto simp: stateInvariant_def)
    moreover have "isGameOver s' \<or> 1 \<le> p_health (player s')"
      using hurt that(2) by (auto simp: stateInvariant_def)
    ultimately show ?thesis
      by (simp add: stateInvariant_def)
  qed
  from ev same es dead wp inv show ?thesis by simp
qed

lemma enemyLoop_returns:
  assumes "\<forall>i \<in> set indices. i < length (enemies s)" and "list_all waypointsValid (enemies s)"
  shows "\<exists>s' m'. enemyLoop dt indices (s, m) = Inr (s', m')"
  using assms
proof (induction indices arbitrary: s m)
  case Nil
  then show ?case by simp
next
  case (Cons i rest)
  then obtain t n where step: "enemyStep dt i (s, m) = Inr (t, n)"
    using enemyStep_returns [of i s dt m] by auto
  note props = enemyStep_props [OF _ step]
  have "\<forall>k \<in> set rest. k < length (enemies t)" "list_all waypointsValid (enemies t)"
    using Cons.prems props by simp_all
  from Cons.IH [OF this] step show ?case
    by simp
qed

lemma enemyLoop_props:
  assumes "\<forall>i \<in> set indices. i < length (enemies s)"
    and "enemyLoop dt indices (s, m) = Inr (s', m')"
  shows "evolves s s' \<and> isWin s' = isWin s \<and> p_pos (player s') = p_pos (player s) \<and>
         length (enemies s') = length (enemies s) \<and>
         list_all e_isDead (enemies s') = list_all e_isDead (enemies s) \<and>
         (list_all waypointsValid (enemies s) \<longrightarrow> list_all waypointsValid (enemies s')) \<and>
         (0 \<le> dt \<and> stateInvariant s \<longrightarrow> stateInvariant s')"
  using assms
proof (induction indices arbitrary: s m)
  case Nil
  then show ?case by simp
next
  case (Cons i rest)
  from Cons.prems(2) obtain t n where step: "enemyStep dt i (s, m) = Inr (t, n)"
    and loop: "enemyLoop dt rest (t, n) = Inr (s', m')"
    by (cases "enemyStep dt i (s, m)") auto
  have a: "evolves s t \<and> isWin t = isWin s \<and> p_pos (player t) = p_pos (player s) \<and>
         length (enemies t) = length (enemies s) \<and>
         list_all e_isDead (enemies t) = list_all e_isDead (enemies s) \<and>
         (list_all waypointsValid (enemies s) \<longrightarrow> list_all waypointsValid (enemies t)) \<and>
         (0 \<le> dt \<and> stateInvariant s \<longrightarrow> stateInvariant t)"
    using Cons.prems(1) by (intro enemyStep_props [OF _ step]) simp
  then have "\<forall>k \<in> set rest. k < length (enemies t)"
    using Cons.prems(1) by simp
  from Cons.IH [OF this loop]
  have b: "evolves t s' \<and> isWin s' = isWin t \<and> p_pos (player s') = p_pos (player t) \<and>
         length (enemies s') = length (enemies t) \<and>
         list_all e_isDead (enemies s') = list_all e_isDead (enemies t) \<and>
         (list_all waypointsValid (enemies t) \<longrightarrow> list_all waypointsValid (enemies s')) \<and>
         (0 \<le> dt \<and> stateInvariant t \<longrightarrow> stateInvariant s')" .
  have "evolves s s'"
    using a b evolves_trans by blast
  with a b show ?case by simp
qed

lemma collectPickups_player:
  "p_pos (fst (collectPickups pl ps)) = p_pos pl \<and>
   p_health (fst (collectPickups pl ps)) = p_health pl \<and>
   p_maxHealth (fst (collectPickups pl ps)) = p_maxHealth pl"
  by (induction ps arbitrary: pl) (simp_all add: Let_def split_beta)

lemma updateBullets_evolves: "evolves s (updateBullets s dt)"
  by (simp add: updateBullets_def updateBullets_loop_evolves)

text \<open>The state a tick that is not skipped hands to the enemy loop.\<close>

lemma updateGame_phases:
  assumes "\<not> isPaused s" "\<not> isGameOver s" "\<not> isWin s"
  shows "\<exists>shot.
     evolves s shot \<and> isWin shot = isWin s \<and>
     (list_all waypointsValid (enemies s) \<longrightarrow> list_all waypointsValid (enemies shot)) \<and>
     (stateInvariant s \<longrightarrow> stateInvariant shot) \<and>
     updateGame s input dt =
       (case enemyLoop dt [0 ..< length (enemies shot)] (shot, 0) of
          Inl f \<Rightarrow> Inl f
        | Inr (acted, maxDetection) \<Rightarrow>
            Inr (let judged = checkWin (acted\<lparr>detectionLevel := maxDetection\<rparr>);
                     (pl, pickups) = collectPickups (player judged) (ammoPickups judged)
                 in judged\<lparr>player := pl, ammoPickups := pickups\<rparr>,
                 snd (updatePlayer s input dt)))"
proof -
  define moved where "moved = fst (updatePlayer s input dt)"
  define decayed where "decayed = moved\<lparr>noiseMarkers :=
                        filter (\<lambda>n. n_lifetime n > 0)
                          (map (\<lambda>n. n\<lparr>n_lifetime := n_lifetime n - dt\<rparr>) (noiseMarkers moved))\<rparr>"
  define shot where "shot = updateBullets decayed dt"
  have "evolves s moved"
    unfolding moved_def by (rule updatePlayer_evolves)
  moreover have "evolves moved decayed"
    by (simp add: decayed_def evolves_def list_all2_same)
  moreover have "evolves decayed shot"
    unfolding shot_def by (rule updateBullets_evolves)
  ultimately have ev: "evolves s shot"
    using evolves_trans by blast
  have win: "isWin shot = isWin s"
    by (simp add: shot_def updateBullets_def decayed_def moved_def)
  have wp: "list_all waypointsValid (enemies shot)" if "list_all waypointsValid (enemies s)"
    unfolding shot_def updateBullets_def
    using that by (intro updateBullets_loop_waypoints) (simp add: decayed_def moved_def)
  have "stateInvariant decayed = stateInvariant moved"
    by (simp add: decayed_def stateInvariant_def)
  then have inv: "stateInvariant shot" if "stateInvariant s"
    unfolding shot_def updateBullets_def
    using that by (intro updateBullets_loop_invariant) (simp add: moved_def updatePlayer_invariant)
  have run: "updateGame s input dt =
       (case enemyLoop dt [0 ..< length (enemies shot)] (shot, 0) of
          Inl f \<Rightarrow> Inl f
        | Inr (acted, maxDetection) \<Rightarrow>
            Inr (let judged = checkWin (acted\<lparr>detectionLevel := maxDetection\<rparr>);
                     (pl, pickups) = collectPickups (player judged) (ammoPickups judged)
                 in judged\<lparr>player := pl, ammoPickups := pickups\<rparr>,
                 snd (updatePlayer s input dt)))"
    using assms
    by (simp add: updateGame_def shot_def decayed_def moved_def Let_def split_beta
          cong: sum.case_cong)
  from ev win wp inv run show ?thesis by blast
qed

text \<open>The end of the tick, after the enemy loop.\<close>

lemma updateGame_finish:
  assumes "s' = (let judged = checkWin (acted\<lparr>detectionLevel := m\<rparr>);
                     (pl, pickups) = collectPickups (player judged) (ammoPickups judged)
                 in judged\<lparr>player := pl, ammoPickups := pickups\<rparr>)"
  shows "evolves acted s' \<and> enemies s' = enemies acted \<and>
         p_pos (player s') = p_pos (player acted) \<and>
         isGameOver s' = isGameOver acted \<and>
         (isWin s' \<longleftrightarrow> isWin acted \<or>
            inBounds (grid acted) \<lfloor>snd (p_pos (player acted))\<rfloor> \<lfloor>fst (p_pos (player acted))\<rfloor> \<and>
            tileAt (grid acted) \<lfloor>snd (p_pos (player acted))\<rfloor> \<lfloor>fst (p_pos (player acted))\<rfloor> = Some EXIT \<and>
            list_all e_isDead (enemies acted)) \<and>
         stateInvariant s' = stateInvariant acted"
proof -
  define judged where "judged = checkWin (acted\<lparr>detectionLevel := m\<rparr>)"
  have s': "s' = judged\<lparr>player := fst (collectPickups (player judged) (ammoPickups judged)),
                        ammoPickups := snd (collectPickups (player judged) (ammoPickups judged))\<rparr>"
    using assms by (simp add: judged_def Let_def split_beta)
  have j: "enemies judged = enemies acted" "player judged = player acted"
      "grid judged = grid acted" "config judged = config acted" "isPaused judged = isPaused acted"
      "isGameOver judged = isGameOver acted"
    by (simp_all add: judged_def checkWin_def Let_def)
  have w: "isWin judged \<longleftrightarrow> isWin acted \<or>
            inBounds (grid acted) \<lfloor>snd (p_pos (player acted))\<rfloor> \<lfloor>fst (p_pos (player acted))\<rfloor> \<and>
            tileAt (grid acted) \<lfloor>snd (p_pos (player acted))\<rfloor> \<lfloor>fst (p_pos (player acted))\<rfloor> = Some EXIT \<and>
            list_all e_isDead (enemies acted)"
    by (auto simp: judged_def checkWin_def Let_def)
  note c = collectPickups_player [of "player judged" "ammoPickups judged"]
  show ?thesis
    unfolding s' using j w c
    by (simp add: evolves_def stateInvariant_def list_all2_same)
qed

lemma upt_indices: "\<forall>i \<in> set [0 ..< length xs]. i < length xs"
  by simp

lemma updateGame_returns:
  assumes "list_all waypointsValid (enemies s)"
  shows "\<exists>s' input'. updateGame s input dt = Inr (s', input')"
proof (cases "isPaused s \<or> isGameOver s \<or> isWin s")
  case True
  then show ?thesis by (simp add: updateGame_def)
next
  case False
  then obtain shot where
    wp: "list_all waypointsValid (enemies shot)" and
    run: "updateGame s input dt =
       (case enemyLoop dt [0 ..< length (enemies shot)] (shot, 0) of
          Inl f \<Rightarrow> Inl f
        | Inr (acted, maxDetection) \<Rightarrow>
            Inr (let judged = checkWin (acted\<lparr>detectionLevel := maxDetection\<rparr>);
                     (pl, pickups) = collectPickups (player judged) (ammoPickups judged)
                 in judged\<lparr>player := pl, ammoPickups := pickups\<rparr>,
                 snd (updatePlayer s input dt)))"
    using updateGame_phases [of s input dt] assms by blast
  obtain acted m where "enemyLoop dt [0 ..< length (enemies shot)] (shot, 0) = Inr (acted, m)"
    using enemyLoop_returns [OF upt_indices wp] by blast
  then show ?thesis
    unfolding run by simp
qed

lemma updateGame_props:
  assumes "updateGame s input dt = Inr (s', input')"
  shows "evolves s s' \<and>
         (list_all waypointsValid (enemies s) \<longrightarrow> list_all waypointsValid (enemies s')) \<and>
         (0 \<le> dt \<and> stateInvariant s \<longrightarrow> stateInvariant s')"
proof (cases "isPaused s \<or> isGameOver s \<or> isWin s")
  case True
  with assms have "s' = s" by (simp add: updateGame_def)
  then show ?thesis by simp
next
  case False
  then obtain shot where
    a: "evolves s shot"
       "list_all waypointsValid (enemies s) \<longrightarrow> list_all waypointsValid (enemies shot)"
       "stateInvariant s \<longrightarrow> stateInvariant shot" and
    run: "updateGame s input dt =
       (case enemyLoop dt [0 ..< length (enemies shot)] (shot, 0) of
          Inl f \<Rightarrow> Inl f
        | Inr (acted, maxDetection) \<Rightarrow>
            Inr (let judged = checkWin (acted\<lparr>detectionLevel := maxDetection\<rparr>);
                     (pl, pickups) = collectPickups (player judged) (ammoPickups judged)
                 in judged\<lparr>player := pl, ammoPickups := pickups\<rparr>,
                 snd (updatePlayer s input dt)))"
    using updateGame_phases [of s input dt] by blast
  from assms obtain acted m where
    loop: "enemyLoop dt [0 ..< length (enemies shot)] (shot, 0) = Inr (acted, m)" and
    s': "s' = (let judged = checkWin (acted\<lparr>detectionLevel := m\<rparr>);
                     (pl, pickups) = collectPickups (player judged) (ammoPickups judged)
                 in judged\<lparr>player := pl, ammoPickups := pickups\<rparr>)"
    unfolding run
    by (cases "enemyLoop dt [0 ..< length (enemies shot)] (shot, 0)") auto
  note b = enemyLoop_props [OF upt_indices loop]
  note c = updateGame_finish [OF s']
  have "evolves s s'"
    using a(1) b c evolves_trans by blast
  moreover have "list_all waypointsValid (enemies s')" if "list_all waypointsValid (enemies s)"
    using that a(2) b c by simp
  moreover have "stateInvariant s'" if "0 \<le> dt" "stateInvariant s"
    using that a(3) b c by simp
  ultimately show ?thesis by blast
qed

lemma updateGame_win:
  assumes "\<not> isPaused s" "\<not> isGameOver s" "\<not> isWin s"
    and "updateGame s input dt = Inr (s', input')"
  shows "grid s' = grid s \<and>
         (isWin s' \<longleftrightarrow>
            inBounds (grid s') \<lfloor>snd (p_pos (player s'))\<rfloor> \<lfloor>fst (p_pos (player s'))\<rfloor> \<and>
            tileAt (grid s') \<lfloor>snd (p_pos (player s'))\<rfloor> \<lfloor>fst (p_pos (player s'))\<rfloor> = Some EXIT \<and>
            list_all e_isDead (enemies s'))"
proof -
  from assms(1-3) obtain shot where
    a: "evolves s shot" "isWin shot = isWin s" and
    run: "updateGame s input dt =
       (case enemyLoop dt [0 ..< length (enemies shot)] (shot, 0) of
          Inl f \<Rightarrow> Inl f
        | Inr (acted, maxDetection) \<Rightarrow>
            Inr (let judged = checkWin (acted\<lparr>detectionLevel := maxDetection\<rparr>);
                     (pl, pickups) = collectPickups (player judged) (ammoPickups judged)
                 in judged\<lparr>player := pl, ammoPickups := pickups\<rparr>,
                 snd (updatePlayer s input dt)))"
    using updateGame_phases [of s input dt] by blast
  from assms(4) obtain acted m where
    loop: "enemyLoop dt [0 ..< length (enemies shot)] (shot, 0) = Inr (acted, m)" and
    s': "s' = (let judged = checkWin (acted\<lparr>detectionLevel := m\<rparr>);
                     (pl, pickups) = collectPickups (player judged) (ammoPickups judged)
                 in judged\<lparr>player := pl, ammoPickups := pickups\<rparr>)"
    unfolding run
    by (cases "enemyLoop dt [0 ..< length (enemies shot)] (shot, 0)") auto
  note b = enemyLoop_props [OF upt_indices loop]
  note c = updateGame_finish [OF s']
  have "\<not> isWin acted"
    using a(2) b assms(3) by simp
  moreover have "grid s' = grid acted" "grid acted = grid s"
    using a(1) b c by (simp_all add: evolves_def)
  ultimately show ?thesis
    using c by simp
qed

lemma newEnemy_invariant: "enemyInvariant (newEnemy i pos ang waypoints speed)"
  by (simp add: enemyInvariant_def newEnemy_def enemyHealth_def)

lemma newEnemy_waypoints: "waypointsValid (newEnemy i pos ang waypoints speed)"
  by (simp add: waypointsValid_def newEnemy_def)

lemma reachable_invariant: "reachable s \<Longrightarrow> stateInvariant s"
proof (induction rule: reachable.induct)
  case (start es cfg g spawn pickups explored)
  then have "list_all enemyInvariant es" "list_all waypointsValid es"
    using newEnemy_invariant newEnemy_waypoints by (auto simp: list_all_iff)
  then show ?case
    by (simp add: stateInvariant_def initGame_def playerHealth_def)
next
  case (frame s deltaTime input s' input')
  then show ?case
    using updateGame_props [of s input deltaTime s' input'] by simp
next
  case (mouse s a)
  then show ?case by (simp add: stateInvariant_def)
next
  case (debug s)
  then show ?case by (simp add: stateInvariant_def)
next
  case (explore s explored)
  then show ?case by (simp add: stateInvariant_def)
qed

lemma tileAt_Some:
  "tileAt g ty tx = Some t \<longleftrightarrow>
     0 \<le> ty \<and> ty < int (length g) \<and> 0 \<le> tx \<and> tx < int (length (g ! nat ty)) \<and>
     g ! nat ty ! nat tx = t"
  by (auto simp: tileAt_def nat_less_iff)

section \<open>The win test\<close>

lemmas eval_defs =
  updateGame_def updatePlayer_def updateBullets_def checkWin_def inBounds_def tileAt_def
  initGame_def DEFAULT_CONFIG_def noInput_def demoGrid_def Let_def
  playerStartAmmo_def playerMaxAmmo_def playerHealth_def

lemma winStart_reachable: "reachable winStart"
  unfolding winStart_def by (rule reachable.start) simp

lemma winStart_tick: "updateGame winStart noInput 0.1 = Inr (winStart\<lparr>isWin := True\<rparr>, noInput)"
  by (simp add: winStart_def eval_defs)

text \<open>
  Claim C5. On a tick of a reachable state that is not skipped (not paused, and neither
  terminal flag set on entry) \<open>updateGame\<close> returns, and in the state it returns \<open>isWin\<close> is
  true if and only if every enemy is dead and the tile under the player is the exit: the
  player's tile indices are inside the grid (rows by the length of the grid, columns by the
  length of its first row, as the program tests them), the row has that column, and the
  tile there is \<open>EXIT\<close>. Otherwise \<open>isWin\<close> is still false. Once \<open>isWin\<close> is true, every
  further sequence of frames returns the same state, whatever the input.
\<close>

theorem win_evaluation:
  assumes "reachable s" and "\<not> isPaused s" and "\<not> isGameOver s" and "\<not> isWin s"
  shows "\<exists>s' input'.
     updateGame s input dt = Inr (s', input') \<and>
     (isWin s' \<longleftrightarrow>
        list_all e_isDead (enemies s') \<and>
        0 \<le> \<lfloor>snd (p_pos (player s'))\<rfloor> \<and> \<lfloor>snd (p_pos (player s'))\<rfloor> < int (length (grid s')) \<and>
        0 \<le> \<lfloor>fst (p_pos (player s'))\<rfloor> \<and> \<lfloor>fst (p_pos (player s'))\<rfloor> < int (length (grid s' ! 0)) \<and>
        \<lfloor>fst (p_pos (player s'))\<rfloor> < int (length (grid s' ! nat \<lfloor>snd (p_pos (player s'))\<rfloor>)) \<and>
        grid s' ! nat \<lfloor>snd (p_pos (player s'))\<rfloor> ! nat \<lfloor>fst (p_pos (player s'))\<rfloor> = EXIT) \<and>
     (isWin s' \<longrightarrow> (\<forall>frames. runFrames s' frames = Inr s'))"
proof -
  have "list_all waypointsValid (enemies s)"
    using reachable_invariant [OF assms(1)] by (simp add: stateInvariant_def)
  then obtain s' input' where run: "updateGame s input dt = Inr (s', input')"
    using updateGame_returns by blast
  note w = updateGame_win [OF assms(2-4) run]
  have "isWin s' \<longleftrightarrow>
        list_all e_isDead (enemies s') \<and>
        0 \<le> \<lfloor>snd (p_pos (player s'))\<rfloor> \<and> \<lfloor>snd (p_pos (player s'))\<rfloor> < int (length (grid s')) \<and>
        0 \<le> \<lfloor>fst (p_pos (player s'))\<rfloor> \<and> \<lfloor>fst (p_pos (player s'))\<rfloor> < int (length (grid s' ! 0)) \<and>
        \<lfloor>fst (p_pos (player s'))\<rfloor> < int (length (grid s' ! nat \<lfloor>snd (p_pos (player s'))\<rfloor>)) \<and>
        grid s' ! nat \<lfloor>snd (p_pos (player s'))\<rfloor> ! nat \<lfloor>fst (p_pos (player s'))\<rfloor> = EXIT"
    using w by (auto simp: inBounds_def tileAt_Some)
  moreover have "\<forall>frames. runFrames s' frames = Inr s'" if "isWin s'"
    using runFrames_skipped [of s'] that by blast
  ultimately show ?thesis
    using run by blast
qed

text \<open>In the level without guards the player spawns on the exit: the first frame sets
  \<open>isWin\<close>, and later frames change nothing.\<close>

theorem win_evaluation_witness:
  "reachable winStart \<and> \<not> isPaused winStart \<and> \<not> isGameOver winStart \<and> \<not> isWin winStart \<and>
   updateGame winStart noInput 0.1 = Inr (winStart\<lparr>isWin := True\<rparr>, noInput) \<and>
   runFrames (winStart\<lparr>isWin := True\<rparr>) [(noInput\<lparr>i_left := True\<rparr>, 0.1), (noInput, 0.05)]
     = Inr (winStart\<lparr>isWin := True\<rparr>)"
proof -
  have flags: "\<not> isPaused winStart" "\<not> isGameOver winStart" "\<not> isWin winStart"
    by (simp_all add: winStart_def initGame_def)
  from win_evaluation [OF winStart_reachable flags, of noInput "0.1"]
  obtain s' input' where
    run: "updateGame winStart noInput 0.1 = Inr (s', input')" and
    frozen: "isWin s' \<longrightarrow> (\<forall>frames. runFrames s' frames = Inr s')"
    by blast
  from run winStart_tick have s': "s' = winStart\<lparr>isWin := True\<rparr>"
    by simp
  then have "isWin s'"
    by simp
  with frozen have "runFrames s' [(noInput\<lparr>i_left := True\<rparr>, 0.1), (noInput, 0.05)] = Inr s'"
    by blast
  then have "runFrames (winStart\<lparr>isWin := True\<rparr>) [(noInput\<lparr>i_left := True\<rparr>, 0.1), (noInput, 0.05)]
     = Inr (winStart\<lparr>isWin := True\<rparr>)"
    unfolding s' .
  with winStart_reachable flags winStart_tick show ?thesis
    by blast
qed

section \<open>Bounds of alert level and health\<close>

lemma demoState_reachable: "reachable demoState"
  unfolding demoState_def demoGuard_def by (rule reachable.start) (simp, blast)

text \<open>
  Claim C8, as the program has it. After every tick of \<open>updateGame\<close> with an elapsed time
  that is not negative, from any reachable state: \<open>updateGame\<close> returns; every enemy's alert
  level lies in \<open>[0, 100]\<close>; every enemy's health lies between 0 and the initial
  \<open>enemyHealth\<close> (an enemy has no \<open>maxHealth\<close> field) and has not increased; the player's
  health is at most \<open>maxHealth\<close> and has not increased. Nothing bounds the player's health
  from below: the program subtracts 1 for every hit without clamping.
\<close>

theorem tick_bounds:
  assumes "reachable s" and "0 \<le> dt"
  shows "\<exists>s' input'.
     updateGame s input dt = Inr (s', input') \<and>
     (\<forall>e \<in> set (enemies s').
        0 \<le> e_alertLevel e \<and> e_alertLevel e \<le> 100 \<and> 0 \<le> e_health e \<and> e_health e \<le> enemyHealth) \<and>
     list_all2 (\<lambda>e e'. e_health e' \<le> e_health e) (enemies s) (enemies s') \<and>
     p_health (player s') \<le> p_maxHealth (player s') \<and>
     p_maxHealth (player s') = p_maxHealth (player s) \<and>
     p_health (player s') \<le> p_health (player s)"
proof -
  have inv: "stateInvariant s"
    using assms(1) by (rule reachable_invariant)
  then obtain s' input' where run: "updateGame s input dt = Inr (s', input')"
    using updateGame_returns [of s input dt] by (auto simp: stateInvariant_def)
  from updateGame_props [OF run] inv assms(2)
  have ev: "evolves s s'" and inv': "stateInvariant s'"
    by simp_all
  from inv' have "\<forall>e \<in> set (enemies s').
        0 \<le> e_alertLevel e \<and> e_alertLevel e \<le> 100 \<and> 0 \<le> e_health e \<and> e_health e \<le> enemyHealth"
    by (simp add: stateInvariant_def list_all_iff enemyInvariant_def)
  with run ev inv' show ?thesis
    by (simp add: evolves_def stateInvariant_def)
qed

theorem tick_bounds_witness:
  "reachable demoState \<and> (0::real) \<le> 0.1 \<and>
   (\<exists>s' input'.
      updateGame demoState noInput 0.1 = Inr (s', input') \<and>
      (\<forall>e \<in> set (enemies s'). 0 \<le> e_alertLevel e \<and> e_alertLevel e \<le> 100 \<and> 0 \<le> e_health e \<and> e_health e \<le> 1) \<and>
      p_health (player s') \<le> 3)"
proof -
  have dt: "(0::real) \<le> 0.1" by simp
  from tick_bounds [OF demoState_reachable dt, of noInput]
  obtain s' input' where
    run: "updateGame demoState noInput 0.1 = Inr (s', input')" and
    es: "\<forall>e \<in> set (enemies s').
        0 \<le> e_alertLevel e \<and> e_alertLevel e \<le> 100 \<and> 0 \<le> e_health e \<and> e_health e \<le> enemyHealth" and
    hp: "p_health (player s') \<le> p_health (player demoState)"
    by blast
  have "p_health (player demoState) = 3"
    by (simp add: demoState_def initGame_def playerHealth_def)
  with run es hp demoState_reachable show ?thesis
    by (auto simp: enemyHealth_def)
qed

text \<open>The player's health does fall below 0. Four guards stand on the player's tile and see
  the player, who stands still. Their alert level grows by 12.5 in every frame of 0.1
  seconds: they patrol for three frames, investigate from the fourth, and in the eighth
  they reach alert level 100. In that frame each of the four, being within 0.8 of the
  player at alert level 100, takes a point of health: 3, 2, 1, 0 (the game is over), \<open>-1\<close>.\<close>

lemma guard_fields [simp]:
  "e_isDead (standoffGuard i st a t sp k) = False"
  "e_pos (standoffGuard i st a t sp k) = (3.5, 2.5)"
  "e_alertLevel (standoffGuard i st a t sp k) = a"
  "e_ammo (standoffGuard i st a t sp k) = 6"
  "e_shootCooldown (standoffGuard i st a t sp k) = 0"
  "e_angle (standoffGuard i st a t sp k) = 0"
  "e_health (standoffGuard i st a t sp k) = 1"
  by (simp_all add: standoffGuard_def newEnemy_def enemyAmmo_def enemyHealth_def)

lemma guard_sees:
  assumes "p_pos pl = (x, 5 / 2)" and "x = 7 / 2 \<or> x = 81 / 20"
  shows "inVisionCone (standoffGuard i st a t sp k) pl demoGrid (DEFAULT_CONFIG 0) = Inr True"
  using assms(2)
proof
  assume "x = 7 / 2"
  with assms(1) have "p_pos pl = (7 / 2, 5 / 2)"
    by simp
  then show ?thesis
    by (simp add: inVisionCone_def standoffGuard_def newEnemy_def DEFAULT_CONFIG_def
        distance_def angleBetween_def atan2_def angleDifference_def normalizeAngle_id
        degToRad_def hasLineOfSight_def getLinePoints_def getLinePoints_loop.simps)
next
  assume "x = 81 / 20"
  with assms(1) have "p_pos pl = (81 / 20, 5 / 2)"
    by simp
  then show ?thesis
    by (simp add: inVisionCone_def standoffGuard_def newEnemy_def DEFAULT_CONFIG_def
        angleBetween_def atan2_def angleDifference_def normalizeAngle_id
        degToRad_def hasLineOfSight_def getLinePoints_def getLinePoints_loop.simps)
qed

lemma guard_alerted:
  assumes "p_pos pl = (x, 5 / 2)" and "x = 7 / 2 \<or> x = 81 / 20" and "\<not> p_isSneaking pl"
  shows "alertPhase (standoffGuard i st a t sp k) pl demoGrid (DEFAULT_CONFIG 0) (1 / 10) ms
     = Inr (standoffGuard i st (min 100 (a + 12.5)) t sp (Some (x, 5 / 2)), True)"
  using assms alertPhase_eq [OF guard_sees [OF assms(1,2)], of i st a t sp k "1 / 10" ms]
  by (simp add: updateAlert_def standoffGuard_def newEnemy_def Let_def)

lemma stay_put: "resolveCollision demoGrid (7 / 2, 5 / 2) (7 / 2, 5 / 2) (7 / 20) = (7 / 2, 5 / 2)"
  by (simp add: resolveCollision_def canMoveTo_def isWalkable_def inBounds_def tileAt_def demoGrid_def)

lemma guard_patrol:
  assumes "p_pos pl = (x, 5 / 2)" and "x = 7 / 2 \<or> x = 81 / 20" and "\<not> p_isSneaking pl" and "a + 12.5 < 40"
  shows "updateEnemy (standoffGuard i PATROL a t sp k) pl demoGrid (DEFAULT_CONFIG 0) (1 / 10) ms
     = Inr (standoffGuard i PATROL (a + 12.5) t sp (Some (x, 5 / 2)),
            \<lparr>detected = True, alertLevel = a + 12.5, shouldShoot = False\<rparr>)"
  using assms(4)
  by (simp add: updateEnemy_def guard_alerted [OF assms(1,2,3)] stateMachine_def)
     (simp add: standoffGuard_def newEnemy_def patrolBehavior_def moveToward_def Let_def stay_put)

lemma guard_suspicious:
  assumes "p_pos pl = (x, 5 / 2)" and "x = 7 / 2 \<or> x = 81 / 20" and "\<not> p_isSneaking pl"
    and "40 \<le> a + 12.5" and "a + 12.5 < 100"
  shows "updateEnemy (standoffGuard i PATROL a t sp k) pl demoGrid (DEFAULT_CONFIG 0) (1 / 10) ms
     = Inr (standoffGuard i INVESTIGATE (a + 12.5) 3 sp (Some (x, 5 / 2)),
            \<lparr>detected = True, alertLevel = a + 12.5, shouldShoot = False\<rparr>)"
  using assms(4,5)
  by (simp add: updateEnemy_def guard_alerted [OF assms(1,2,3)] stateMachine_def)
     (simp add: standoffGuard_def newEnemy_def)

lemma guard_investigate:
  assumes "p_pos pl = (x, 5 / 2)" and "x = 7 / 2 \<or> x = 81 / 20" and "\<not> p_isSneaking pl"
    and "10 \<le> a + 12.5" and "a + 12.5 < 100" and "0 < t - 1 / 10"
  shows "updateEnemy (standoffGuard i INVESTIGATE a t sp k) pl demoGrid (DEFAULT_CONFIG 0) (1 / 10) ms
     = Inr (standoffGuard i INVESTIGATE (a + 12.5) (t - 1 / 10) sp (Some (x, 5 / 2)),
            \<lparr>detected = True, alertLevel = a + 12.5, shouldShoot = False\<rparr>)"
  using assms(4-6)
  by (simp add: updateEnemy_def guard_alerted [OF assms(1,2,3)] stateMachine_def)
     (simp add: standoffGuard_def newEnemy_def investigateBehavior_def Let_def)

lemma guard_engages:
  assumes "p_pos pl = (x, 5 / 2)" and "x = 7 / 2 \<or> x = 81 / 20" and "\<not> p_isSneaking pl"
    and "100 \<le> a + 12.5"
  shows "updateEnemy (standoffGuard i INVESTIGATE a t sp k) pl demoGrid (DEFAULT_CONFIG 0) (1 / 10) ms
     = Inr (standoffGuard i CHASE 100 4 4 (Some (x, 5 / 2)),
            \<lparr>detected = True, alertLevel = 100, shouldShoot = False\<rparr>)"
  using assms(4)
  by (simp add: updateEnemy_def guard_alerted [OF assms(1,2,3)] stateMachine_def)
     (simp add: standoffGuard_def newEnemy_def DEFAULT_CONFIG_def Let_def)

lemma standoff_start:
  "standoff 3 PATROL 0 0 1.5 None
     = initGame (DEFAULT_CONFIG 0) demoGrid (3.5, 2.5)
         [newEnemy 0 (3.5, 2.5) 0 [(3.5, 2.5)] 1.5, newEnemy 1 (3.5, 2.5) 0 [(3.5, 2.5)] 1.5,
          newEnemy 2 (3.5, 2.5) 0 [(3.5, 2.5)] 1.5, newEnemy 3 (3.5, 2.5) 0 [(3.5, 2.5)] 1.5] [] []"
  by (simp add: standoff_def standoffGuard_def newEnemy_def initGame_def playerHealth_def)

lemmas standoff_defs =
  standoff_def initGame_def updateGame_def updatePlayer_def updateBullets_def enemyStep_def
  checkWin_def noInput_def Let_def playerStartAmmo_def playerMaxAmmo_def playerHealth_def

lemma standoff_patrol:
  assumes "a + 12.5 < 40" and "0 \<le> a"
  shows "updateGame (standoff 3 PATROL a t sp k) noInput (1 / 10)
     = Inr (standoff 3 PATROL (a + 12.5) t sp (Some (3.5, 2.5)), noInput)"
  using assms by (simp add: standoff_defs guard_patrol [where x = "7 / 2"])

lemma standoff_suspicious:
  assumes "40 \<le> a + 12.5" and "a + 12.5 < 100"
  shows "updateGame (standoff 3 PATROL a t sp k) noInput (1 / 10)
     = Inr (standoff 3 INVESTIGATE (a + 12.5) 3 sp (Some (3.5, 2.5)), noInput)"
  using assms by (simp add: standoff_defs guard_suspicious [where x = "7 / 2"])

lemma standoff_investigate:
  assumes "10 \<le> a + 12.5" and "a + 12.5 < 100" and "0 < t - 1 / 10"
  shows "updateGame (standoff 3 INVESTIGATE a t sp k) noInput (1 / 10)
     = Inr (standoff 3 INVESTIGATE (a + 12.5) (t - 1 / 10) sp (Some (3.5, 2.5)), noInput)"
  using assms by (simp add: standoff_defs guard_investigate [where x = "7 / 2"])

lemma cornered_tick: "updateGame cornered noInput (1 / 10) = Inr (corneredNext, noInput)"
  by (simp add: cornered_def corneredNext_def standoff_defs guard_engages [where x = "7 / 2"])

lemma cornered_reachable: "reachable cornered"
proof -
  have r0: "reachable (standoff 3 PATROL 0 0 1.5 None)"
    unfolding standoff_start by (rule reachable.start) (simp, blast)
  have r1: "reachable (standoff 3 PATROL 12.5 0 1.5 (Some (3.5, 2.5)))"
    using reachable.frame [OF r0 _ _ standoff_patrol [of 0 0 "1.5" None]] by simp
  have r2: "reachable (standoff 3 PATROL 25 0 1.5 (Some (3.5, 2.5)))"
    using reachable.frame [OF r1 _ _ standoff_patrol [of "12.5" 0 "1.5" "Some (3.5, 2.5)"]] by simp
  have r3: "reachable (standoff 3 PATROL 37.5 0 1.5 (Some (3.5, 2.5)))"
    using reachable.frame [OF r2 _ _ standoff_patrol [of 25 0 "1.5" "Some (3.5, 2.5)"]] by simp
  have r4: "reachable (standoff 3 INVESTIGATE 50 3 1.5 (Some (3.5, 2.5)))"
    using reachable.frame [OF r3 _ _ standoff_suspicious [of "37.5" 0 "1.5" "Some (3.5, 2.5)"]] by simp
  have r5: "reachable (standoff 3 INVESTIGATE 62.5 2.9 1.5 (Some (3.5, 2.5)))"
    using reachable.frame [OF r4 _ _ standoff_investigate [of 50 3 "1.5" "Some (3.5, 2.5)"]] by simp
  have r6: "reachable (standoff 3 INVESTIGATE 75 2.8 1.5 (Some (3.5, 2.5)))"
    using reachable.frame [OF r5 _ _ standoff_investigate [of "62.5" "2.9" "1.5" "Some (3.5, 2.5)"]] by simp
  show ?thesis
    unfolding cornered_def
    using reachable.frame [OF r6 _ _ standoff_investigate [of 75 "2.8" "1.5" "Some (3.5, 2.5)"]] by simp
qed

text \<open>The state \<open>cornered\<close> is reachable, and one more frame takes the player's health from
  3 to \<open>-1\<close>, outside \<open>[0, maxHealth]\<close>.\<close>

theorem player_health_below_zero:
  "reachable cornered \<and> updateGame cornered noInput 0.1 = Inr (corneredNext, noInput) \<and>
   p_health (player corneredNext) = - 1 \<and>
   \<not> (0 \<le> p_health (player corneredNext) \<and>
        p_health (player corneredNext) \<le> p_maxHealth (player corneredNext))"
  using cornered_reachable cornered_tick
  by (simp add: corneredNext_def standoff_def)

section \<open>Both terminal flags in one tick\<close>

text \<open>The bullet phase leaves dead enemies as they are and the player where it stands, and
  the enemy loop passes over dead enemies.\<close>

lemma hitEnemy_all_dead: "list_all e_isDead es \<Longrightarrow> hitEnemy b es = None"
  by (induction es) simp_all

lemma bulletStep_all_dead:
  "list_all e_isDead (enemies s) \<Longrightarrow> enemies (bulletStep dt i s) = enemies s"
  by (simp add: bulletStep_def Let_def hitEnemy_all_dead)

lemma bulletStep_pos [simp]: "p_pos (player (bulletStep dt i s)) = p_pos (player s)"
  by (simp add: bulletStep_def Let_def split: option.splits)

lemma updateBullets_loop_all_dead:
  "list_all e_isDead (enemies s) \<Longrightarrow> enemies (updateBullets_loop dt n s) = enemies s"
  by (induction n arbitrary: s) (simp_all add: bulletStep_all_dead)

lemma updateBullets_loop_pos [simp]:
  "p_pos (player (updateBullets_loop dt n s)) = p_pos (player s)"
  by (induction n arbitrary: s) simp_all

lemma enemyLoop_all_dead:
  assumes "list_all e_isDead (enemies s)" and "\<forall>i \<in> set indices. i < length (enemies s)"
  shows "enemyLoop dt indices (s, m) = Inr (s, m)"
  using assms(2)
proof (induction indices)
  case Nil
  show ?case by simp
next
  case (Cons i rest)
  then have "e_isDead (enemies s ! i)"
    using assms(1) by (simp add: list_all_length)
  then have "enemyStep dt i (s, m) = Inr (s, m)"
    by (rule enemyStep_dead)
  with Cons show ?case by simp
qed

text \<open>A reachable state in which all enemies are dead, the player stands on the exit and a
  bullet is in flight has \<open>isWin\<close> set already, by the win test of the tick that produced
  it, so that its ticks are skipped. In a tick that sets both flags, therefore, the player
  arrives on the exit or the last enemy dies during that same tick.\<close>

lemma exit_with_bullets_won:
  assumes "reachable s"
    and "list_all e_isDead (enemies s)"
    and "inBounds (grid s) \<lfloor>snd (p_pos (player s))\<rfloor> \<lfloor>fst (p_pos (player s))\<rfloor>"
    and "tileAt (grid s) \<lfloor>snd (p_pos (player s))\<rfloor> \<lfloor>fst (p_pos (player s))\<rfloor> = Some EXIT"
  shows "isWin s \<or> bullets s = []"
  using assms
proof (induction rule: reachable.induct)
  case (start es cfg g spawn pickups explored)
  show ?case by (simp add: initGame_def)
next
  case (frame s deltaTime input s' input')
  show ?case
  proof (cases "isPaused s \<or> isGameOver s \<or> isWin s")
    case True
    then have "s' = s"
      using frame.hyps(4) by (simp add: updateGame_skipped)
    with frame.IH frame.prems show ?thesis
      by simp
  next
    case False
    then have "isWin s'"
      using updateGame_win [of s input deltaTime s' input'] frame.hyps(4) frame.prems by simp
    then show ?thesis ..
  qed
next
  case (mouse s a)
  then show ?case by simp
next
  case (debug s)
  then show ?case by simp
next
  case (explore s explored)
  then show ?case by simp
qed

text \<open>The duel, frame by frame. The guard sees the player on the exit the whole time; its
  alert level grows by 12.5 per frame of 0.1 seconds. In the eighth frame it reaches 100 and
  the guard, 0.55 away, catches the player (health 2). In the ninth the guard, now chasing,
  steps 0.4 toward the player, fires, and catches the player again (health 1).\<close>

lemmas duel_defs =
  duel_def initGame_def updateGame_def updatePlayer_def updateBullets_def enemyStep_def
  checkWin_def noInput_def Let_def playerStartAmmo_def playerMaxAmmo_def playerHealth_def

lemma sprint_step:
  "resolveCollision demoGrid (7 / 2, 5 / 2) (81 / 20, 5 / 2) (3 / 10) = (81 / 20, 5 / 2)"
  by (simp add: resolveCollision_def canMoveTo_def isWalkable_def inBounds_def tileAt_def demoGrid_def)

lemma duelStart_eq:
  "duelStart = (initGame (DEFAULT_CONFIG 0) demoGrid (3.5, 2.5) [standoffGuard 0 PATROL 0 0 1.5 None] [] [])"
  by (simp add: duelStart_def standoffGuard_def newEnemy_def)

lemma sprint_speed: "playerSprintSpeed (DEFAULT_CONFIG 0) = 11 / 2"
  by (simp add: DEFAULT_CONFIG_def)

lemma duel_sprint:
  "updateGame duelStart (noInput\<lparr>i_right := True, i_sprint := True\<rparr>) (1 / 10)
     = Inr (duel 3 True 1 PATROL 12.5 0 1.5, noInput\<lparr>i_right := True, i_sprint := True\<rparr>)"
  by (simp add: duelStart_eq duel_defs guard_patrol [where x = "81 / 20"] sprint_step sprint_speed)

lemma duel_patrol:
  assumes "a + 12.5 < 40" and "0 \<le> a"
  shows "updateGame (duel 3 sprinting noise PATROL a t sp) noInput (1 / 10)
     = Inr (duel 3 False 0 PATROL (a + 12.5) t sp, noInput)"
  using assms by (simp add: duel_defs guard_patrol [where x = "81 / 20"])

lemma duel_suspicious:
  assumes "40 \<le> a + 12.5" and "a + 12.5 < 100"
  shows "updateGame (duel 3 sprinting noise PATROL a t sp) noInput (1 / 10)
     = Inr (duel 3 False 0 INVESTIGATE (a + 12.5) 3 sp, noInput)"
  using assms by (simp add: duel_defs guard_suspicious [where x = "81 / 20"])

lemma duel_investigate:
  assumes "10 \<le> a + 12.5" and "a + 12.5 < 100" and "0 < t - 1 / 10"
  shows "updateGame (duel 3 sprinting noise INVESTIGATE a t sp) noInput (1 / 10)
     = Inr (duel 3 False 0 INVESTIGATE (a + 12.5) (t - 1 / 10) sp, noInput)"
  using assms by (simp add: duel_defs guard_investigate [where x = "81 / 20"])

lemma duel_engages:
  assumes "100 \<le> a + 12.5"
  shows "updateGame (duel 3 sprinting noise INVESTIGATE a t sp) noInput (1 / 10)
     = Inr (duel 2 False 0 CHASE 100 4 4, noInput)"
  using assms by (simp add: duel_defs guard_engages [where x = "81 / 20"])

lemma chase_step:
  "resolveCollision demoGrid (7 / 2, 5 / 2) (39 / 10, 5 / 2) (7 / 20) = (39 / 10, 5 / 2)"
  by (simp add: resolveCollision_def canMoveTo_def isWalkable_def inBounds_def tileAt_def demoGrid_def)

lemma guard_fires:
  assumes "p_pos pl = (81 / 20, 5 / 2)" and "\<not> p_isSneaking pl"
  shows "updateEnemy (standoffGuard i CHASE 100 4 4 (Some (81 / 20, 5 / 2))) pl demoGrid
           (DEFAULT_CONFIG 0) (1 / 10) ms
     = Inr ((standoffGuard i CHASE 100 4 4 (Some (81 / 20, 5 / 2)))\<lparr>e_pos := (39 / 10, 5 / 2)\<rparr>,
            \<lparr>detected = True, alertLevel = 100, shouldShoot = True\<rparr>)"
  by (simp add: updateEnemy_def guard_alerted [OF assms(1) _ assms(2)] stateMachine_def)
     (simp add: standoffGuard_def newEnemy_def DEFAULT_CONFIG_def Let_def chaseBehavior_def
        moveToward_def normalize_def angleBetween_def atan2_def chase_step assms(1) enemyAmmo_def)

lemma duel_fires:
  "updateGame (duel 2 False 0 CHASE 100 4 4) noInput (1 / 10) = Inr (held, noInput)"
  by (simp add: held_def duel_defs guard_fires enemyShoot_def bulletSpeed_def bulletLifetime_def
        enemyShootCooldown_def)

lemma lastStand_reachable: "reachable lastStand"
proof -
  have r0: "reachable duelStart"
    unfolding duelStart_def by (rule reachable.start) (simp, blast)
  have r1: "reachable (duel 3 True 1 PATROL 12.5 0 1.5)"
    using reachable.frame [OF r0 _ _ duel_sprint] by simp
  have r2: "reachable (duel 3 False 0 PATROL 25 0 1.5)"
    using reachable.frame [OF r1 _ _ duel_patrol [of "12.5" True 1 0 "1.5"]] by simp
  have r3: "reachable (duel 3 False 0 PATROL 37.5 0 1.5)"
    using reachable.frame [OF r2 _ _ duel_patrol [of 25 False 0 0 "1.5"]] by simp
  have r4: "reachable (duel 3 False 0 INVESTIGATE 50 3 1.5)"
    using reachable.frame [OF r3 _ _ duel_suspicious [of "37.5" False 0 0 "1.5"]] by simp
  have r5: "reachable (duel 3 False 0 INVESTIGATE 62.5 2.9 1.5)"
    using reachable.frame [OF r4 _ _ duel_investigate [of 50 3 False 0 "1.5"]] by simp
  have r6: "reachable (duel 3 False 0 INVESTIGATE 75 2.8 1.5)"
    using reachable.frame [OF r5 _ _ duel_investigate [of "62.5" "2.9" False 0 "1.5"]] by simp
  have r7: "reachable (duel 3 False 0 INVESTIGATE 87.5 2.7 1.5)"
    using reachable.frame [OF r6 _ _ duel_investigate [of 75 "2.8" False 0 "1.5"]] by simp
  have r8: "reachable (duel 2 False 0 CHASE 100 4 4)"
    using reachable.frame [OF r7 _ _ duel_engages [of "87.5" False 0 "2.7" "1.5"]] by simp
  have r9: "reachable held"
    using reachable.frame [OF r8 _ _ duel_fires] by simp
  show ?thesis
    unfolding lastStand_def using r9 by (rule reachable.mouse)
qed

text \<open>The tenth frame, of 0.02 seconds, in which the player shoots. The player's bullet
  flies 0.3 and kills the guard; the guard's bullet flies 0.24 and takes the player's last
  point of health; the win test finds all enemies dead and the player on the exit.\<close>

lemma lastStand_moved:
  "fst (updatePlayer lastStand (noInput\<lparr>i_shoot := True\<rparr>) (1 / 50))
     = lastStand
        \<lparr>player := (player lastStand)\<lparr>p_ammo := 11, p_shootCooldown := 0.3\<rparr>,
         nextBulletId := 2,
         bullets := bullets lastStand @
           [\<lparr>b_id = 1, b_pos = (4.05, 2.5), b_velocity = (- 15, 0),
             b_isPlayerBullet = True, b_lifetime = 2\<rparr>],
         noiseMarkers := noiseMarkers lastStand @
           [\<lparr>n_pos = (4.05, 2.5), n_radius = 6, n_lifetime = 1.5, n_maxLifetime = 1.5\<rparr>]\<rparr>"
  by (simp add: lastStand_def held_def duel_def initGame_def updatePlayer_def playerShoot_def
        noInput_def Let_def bulletSpeed_def bulletLifetime_def shootCooldown_def
        playerStartAmmo_def)

lemma lastStand_tick:
  "updateGame lastStand (noInput\<lparr>i_shoot := True\<rparr>) (1 / 50) = Inr (fallen, noInput)"
  by (simp add: fallen_def lastStand_def held_def duel_defs playerShoot_def bulletStep_def
        bulletSpeed_def bulletLifetime_def shootCooldown_def splice1_def
        standoffGuard_def newEnemy_def enemyAmmo_def enemyHealth_def
        isWalkable_def inBounds_def tileAt_def demoGrid_def)

lemma onExit_iff:
  "onExit s \<longleftrightarrow>
     inBounds (grid s) \<lfloor>snd (p_pos (player s))\<rfloor> \<lfloor>fst (p_pos (player s))\<rfloor> \<and>
     tileAt (grid s) \<lfloor>snd (p_pos (player s))\<rfloor> \<lfloor>fst (p_pos (player s))\<rfloor> = Some EXIT"
  by (auto simp: onExit_def inBounds_def tileAt_Some)

text \<open>In a tick that is not skipped, if all enemies are dead and \<open>isGameOver\<close> is set when
  the bullet phase is over, and the player stands on the exit, then the enemy loop passes
  over every enemy, and the win test sets \<open>isWin\<close> without looking at \<open>isGameOver\<close>.\<close>

lemma both_flags_mechanism:
  assumes "\<not> isPaused s" and "\<not> isGameOver s" and "\<not> isWin s"
    and "list_all e_isDead (enemies (afterBullets s input dt))"
    and "isGameOver (afterBullets s input dt)"
    and "onExit (afterBullets s input dt)"
  shows "\<exists>s' input'. updateGame s input dt = Inr (s', input') \<and> isGameOver s' \<and> isWin s'"
proof -
  define shot where "shot = afterBullets s input dt"
  have g: "grid shot = grid s"
    by (simp add: shot_def afterBullets_def Let_def updateBullets_def)
  have loop: "enemyLoop dt [0 ..< length (enemies shot)] (shot, 0) = Inr (shot, 0)"
    using assms(4) unfolding shot_def [symmetric] by (intro enemyLoop_all_dead) simp_all
  have run: "updateGame s input dt =
       Inr (let judged = checkWin (shot\<lparr>detectionLevel := 0\<rparr>);
                (pl, pickups) = collectPickups (player judged) (ammoPickups judged)
            in judged\<lparr>player := pl, ammoPickups := pickups\<rparr>,
            snd (updatePlayer s input dt))"
    using assms(1-3) loop
    by (simp add: updateGame_def Let_def split_beta shot_def afterBullets_def)
  have judged: "isWin (checkWin (shot\<lparr>detectionLevel := 0\<rparr>))"
      "isGameOver (checkWin (shot\<lparr>detectionLevel := 0\<rparr>))"
    using assms(4-6) unfolding shot_def [symmetric] onExit_iff
    by (simp_all add: checkWin_def Let_def)
  show ?thesis
    unfolding run using judged by (simp add: Let_def split_beta)
qed

text \<open>The state that claim C10 names does not set both flags. In a reachable state in which
  all enemies are already dead, the player stands on the exit and a bullet of an enemy is
  in flight, \<open>isWin\<close> is set; the tick is skipped, and no hit takes the player's health to 0.\<close>

theorem exit_state_is_skipped:
  "\<not> (\<exists>s input dt s' input'.
        reachable s \<and> list_all e_isDead (enemies s) \<and> onExit s \<and>
        (\<exists>b \<in> set (bullets s). \<not> b_isPlayerBullet b) \<and>
        0 < p_health (player s) \<and>
        updateGame s input dt = Inr (s', input') \<and>
        p_health (player s') = 0 \<and> isGameOver s' \<and> isWin s')"
proof
  assume "\<exists>s input dt s' input'.
        reachable s \<and> list_all e_isDead (enemies s) \<and> onExit s \<and>
        (\<exists>b \<in> set (bullets s). \<not> b_isPlayerBullet b) \<and>
        0 < p_health (player s) \<and>
        updateGame s input dt = Inr (s', input') \<and>
        p_health (player s') = 0 \<and> isGameOver s' \<and> isWin s'"
  then obtain s input dt s' input' where
    s: "reachable s" "list_all e_isDead (enemies s)" "onExit s"
      "\<exists>b \<in> set (bullets s). \<not> b_isPlayerBullet b" "0 < p_health (player s)" and
    run: "updateGame s input dt = Inr (s', input')" and
    s': "p_health (player s') = 0"
    by blast
  from s(4) have "bullets s \<noteq> []"
    by auto
  with exit_with_bullets_won [OF s(1,2)] s(3) have "isWin s"
    by (simp add: onExit_iff)
  then have "updateGame s input dt = Inr (s, input)"
    by (simp add: updateGame_skipped)
  with run have "s' = s"
    by simp
  with s(5) s' show False
    by simp
qed

text \<open>
  Claim C10, as the program has it. \<open>updateGame\<close> does not keep the two terminal flags
  apart. There is a reachable state, not skipped, in which the player stands on the exit
  with 1 point of health, a bullet of an enemy is in flight and one enemy is still alive,
  and a tick of at most 0.1 seconds from it that ends with all enemies dead, the player's
  health 0, and both \<open>isGameOver\<close> and \<open>isWin\<close> true. For, in every tick that is not skipped:
  if all enemies are dead and \<open>isGameOver\<close> is set when the bullet phase is over, and the
  player stands on the exit, the tick returns a state with both flags true; the win test,
  later in the same tick, does not look at \<open>isGameOver\<close>.
\<close>

theorem both_flags_set:
  "(\<exists>s input dt s' input'.
      reachable s \<and> 0 \<le> dt \<and> dt \<le> 0.1 \<and>
      \<not> isPaused s \<and> \<not> isGameOver s \<and> \<not> isWin s \<and> onExit s \<and>
      p_health (player s) = 1 \<and>
      (\<exists>b \<in> set (bullets s). \<not> b_isPlayerBullet b) \<and>
      length (filter (\<lambda>e. \<not> e_isDead e) (enemies s)) = 1 \<and>
      updateGame s input dt = Inr (s', input') \<and>
      list_all e_isDead (enemies s') \<and> p_health (player s') = 0 \<and>
      isGameOver s' \<and> isWin s') \<and>
   (\<forall>s input dt.
      \<not> isPaused s \<and> \<not> isGameOver s \<and> \<not> isWin s \<and>
      list_all e_isDead (enemies (afterBullets s input dt)) \<and>
      isGameOver (afterBullets s input dt) \<and> onExit (afterBullets s input dt)
      \<longrightarrow> (\<exists>s' input'. updateGame s input dt = Inr (s', input') \<and> isGameOver s' \<and> isWin s'))"
proof (rule conjI)
  have "reachable lastStand \<and> (0::real) \<le> 1 / 50 \<and> (1 / 50 :: real) \<le> 0.1 \<and>
      \<not> isPaused lastStand \<and> \<not> isGameOver lastStand \<and> \<not> isWin lastStand \<and> onExit lastStand \<and>
      p_health (player lastStand) = 1 \<and>
      (\<exists>b \<in> set (bullets lastStand). \<not> b_isPlayerBullet b) \<and>
      length (filter (\<lambda>e. \<not> e_isDead e) (enemies lastStand)) = 1 \<and>
      updateGame lastStand (noInput\<lparr>i_shoot := True\<rparr>) (1 / 50) = Inr (fallen, noInput) \<and>
      list_all e_isDead (enemies fallen) \<and> p_health (player fallen) = 0 \<and>
      isGameOver fallen \<and> isWin fallen"
    using lastStand_reachable lastStand_tick
    by (simp add: fallen_def lastStand_def held_def duel_def initGame_def onExit_def demoGrid_def
          standoffGuard_def newEnemy_def)
  then show "\<exists>s input dt s' input'.
      reachable s \<and> 0 \<le> dt \<and> dt \<le> 0.1 \<and>
      \<not> isPaused s \<and> \<not> isGameOver s \<and> \<not> isWin s \<and> onExit s \<and>
      p_health (player s) = 1 \<and>
      (\<exists>b \<in> set (bullets s). \<not> b_isPlayerBullet b) \<and>
      length (filter (\<lambda>e. \<not> e_isDead e) (enemies s)) = 1 \<and>
      updateGame s input dt = Inr (s', input') \<and>
      list_all e_isDead (enemies s') \<and> p_health (player s') = 0 \<and>
      isGameOver s' \<and> isWin s'"
    by blast
next
  show "\<forall>s input dt.
      \<not> isPaused s \<and> \<not> isGameOver s \<and> \<not> isWin s \<and>
      list_all e_isDead (enemies (afterBullets s input dt)) \<and>
      isGameOver (afterBullets s input dt) \<and> onExit (afterBullets s input dt)
      \<longrightarrow> (\<exists>s' input'. updateGame s input dt = Inr (s', input') \<and> isGameOver s' \<and> isWin s')"
    using both_flags_mechanism by blast
qed

text \<open>The duel: \<open>lastStand\<close> is reachable from the initial state \<open>duelStart\<close> in nine frames
  and a turn of the player; the player, with 1 point of health, stands on the exit, the
  guard is alive and its bullet is in flight. In the frame in which the player shoots, the
  bullet phase kills the guard and takes the player's last point of health, and the tick
  sets both flags.\<close>

theorem both_flags_set_witness:
  "reachable lastStand \<and> \<not> isPaused lastStand \<and> \<not> isGameOver lastStand \<and> \<not> isWin lastStand \<and>
   onExit lastStand \<and> p_health (player lastStand) = 1 \<and>
   map b_isPlayerBullet (bullets lastStand) = [False] \<and>
   map e_isDead (enemies lastStand) = [False] \<and>
   afterBullets lastStand (noInput\<lparr>i_shoot := True\<rparr>) (1 / 50)
     = fallen\<lparr>ammoPickups := [\<lparr>a_pos = (3.9, 2.5), a_amount = 4, a_collected = False\<rparr>],
        player := (player fallen)\<lparr>p_ammo := 11\<rparr>, isWin := False, detectionLevel := 100\<rparr> \<and>
   (\<exists>s' input'. updateGame lastStand (noInput\<lparr>i_shoot := True\<rparr>) (1 / 50) = Inr (s', input') \<and>
                 isGameOver s' \<and> isWin s')"
proof -
  let ?input = "noInput\<lparr>i_shoot := True\<rparr>"
  have flags: "\<not> isPaused lastStand" "\<not> isGameOver lastStand" "\<not> isWin lastStand"
    by (simp_all add: lastStand_def held_def duel_def initGame_def)
  have hp: "p_health (player lastStand) = 1"
    by (simp add: lastStand_def held_def duel_def)
  have tile: "onExit lastStand"
    by (simp add: onExit_def lastStand_def held_def duel_def initGame_def demoGrid_def)
  have bullet: "map b_isPlayerBullet (bullets lastStand) = [False]"
    by (simp add: lastStand_def held_def)
  have guard: "map e_isDead (enemies lastStand) = [False]"
    by (simp add: lastStand_def held_def)
  have shot: "afterBullets lastStand ?input (1 / 50)
     = fallen\<lparr>ammoPickups := [\<lparr>a_pos = (3.9, 2.5), a_amount = 4, a_collected = False\<rparr>],
        player := (player fallen)\<lparr>p_ammo := 11\<rparr>, isWin := False, detectionLevel := 100\<rparr>"
    unfolding afterBullets_def Let_def lastStand_moved
    by (simp add: fallen_def lastStand_def held_def duel_def initGame_def updateBullets_def
          bulletStep_def Let_def splice1_def standoffGuard_def newEnemy_def enemyAmmo_def
          enemyHealth_def isWalkable_def inBounds_def tileAt_def demoGrid_def)
  have after: "list_all e_isDead (enemies (afterBullets lastStand ?input (1 / 50)))"
    "isGameOver (afterBullets lastStand ?input (1 / 50))"
    "onExit (afterBullets lastStand ?input (1 / 50))"
    unfolding shot
    by (simp_all add: fallen_def onExit_def lastStand_def held_def duel_def initGame_def demoGrid_def)
  have "\<exists>s' input'. updateGame lastStand ?input (1 / 50) = Inr (s', input') \<and> isGameOver s' \<and> isWin s'"
    using flags after by (intro both_flags_set [THEN conjunct2, rule_format]) simp
  with lastStand_reachable flags hp tile bullet guard shot show ?thesis
    by blast
qed

end
